theory Spec2Isabelle
  imports Main
begin

section \<open>JSON values and the JavaScript operations applied to them\<close>

text \<open>
  Payloads are untyped in the source (\<^verbatim>\<open>any\<close>).  A parsed JSON value is a \<open>json\<close>; the
  JavaScript value \<^verbatim>\<open>undefined\<close> (a property that is not there) is \<open>None\<close> of
  \<open>json option\<close>.  Numbers are integers here.
\<close>

datatype json =
    JNull
  | JBool bool
  | JNum int
  | JStr string
  | JArr "json list"
  | JObj "(string \<times> json) list"

datatype error =
    ApiError string "int option"
  | AbortError
  | FetchError
  | TypeError
  | DatabaseError
  | NotInitialized

text \<open>JavaScript truthiness, as used by \<^verbatim>\<open>if (x)\<close>, \<^verbatim>\<open>x && y\<close> and \<^verbatim>\<open>while (x)\<close>.\<close>

fun truthy :: "json option \<Rightarrow> bool" where
  "truthy None = False"
| "truthy (Some JNull) = False"
| "truthy (Some (JBool b)) = b"
| "truthy (Some (JNum n)) = (n \<noteq> 0)"
| "truthy (Some (JStr s)) = (s \<noteq> [])"
| "truthy (Some (JArr xs)) = True"
| "truthy (Some (JObj kvs)) = True"

text \<open>
  Property read \<^verbatim>\<open>v.k\<close>: a TypeError on \<^verbatim>\<open>null\<close> and \<^verbatim>\<open>undefined\<close>, the member of an
  object, and \<^verbatim>\<open>undefined\<close> on every other value (the names read by the code, \<^verbatim>\<open>data\<close>,
  \<^verbatim>\<open>pagination\<close>, \<^verbatim>\<open>has_more\<close>, \<^verbatim>\<open>id\<close> and \<^verbatim>\<open>name\<close>, are on no built-in prototype).
\<close>

fun getprop :: "json option \<Rightarrow> string \<Rightarrow> error + json option" where
  "getprop None k = Inl TypeError"
| "getprop (Some JNull) k = Inl TypeError"
| "getprop (Some (JObj kvs)) k = Inr (map_of kvs k)"
| "getprop (Some (JBool b)) k = Inr None"
| "getprop (Some (JNum n)) k = Inr None"
| "getprop (Some (JStr s)) k = Inr None"
| "getprop (Some (JArr xs)) k = Inr None"

text \<open>\<^verbatim>\<open>xs.concat(v)\<close>: an array argument is spread, any other value is appended as one element.\<close>

fun concat_js :: "json list \<Rightarrow> json \<Rightarrow> json list" where
  "concat_js xs (JArr ys) = xs @ ys"
| "concat_js xs JNull = xs @ [JNull]"
| "concat_js xs (JBool b) = xs @ [JBool b]"
| "concat_js xs (JNum n) = xs @ [JNum n]"
| "concat_js xs (JStr s) = xs @ [JStr s]"
| "concat_js xs (JObj kvs) = xs @ [JObj kvs]"

text \<open>
  \<^verbatim>\<open>parseInt(s)\<close> without a radix: leading white space, an optional sign, an optional
  \<^verbatim>\<open>0x\<close> prefix, then the longest run of digits; \<open>None\<close> is NaN.  Two limits of this
  definition: the result is the exact integer, where JavaScript rounds to a double beyond
  \<open>2^53\<close>; and the white space skipped is the ASCII one (tab, line feed, vertical tab,
  form feed, carriage return, space), where JavaScript also skips the Unicode white space.
\<close>

definition isSpace :: "char \<Rightarrow> bool" where
  "isSpace ch = (of_char ch \<in> {9, 10, 11, 12, 13, 32 :: nat})"

definition digitVal :: "char \<Rightarrow> nat" where
  "digitVal ch =
     (let n = (of_char ch :: nat)
      in if 48 \<le> n \<and> n \<le> 57 then n - 48
         else if 97 \<le> n \<and> n \<le> 122 then n - 87
         else if 65 \<le> n \<and> n \<le> 90 then n - 55
         else 36)"

definition parseInt :: "string \<Rightarrow> int option" where
  "parseInt s =
     (let s1 = dropWhile isSpace s;
          neg = (take 1 s1 = ''-'');
          s2 = (if take 1 s1 = ''+'' \<or> take 1 s1 = ''-'' then drop 1 s1 else s1);
          hex = (take 2 s2 = ''0x'' \<or> take 2 s2 = ''0X'');
          radix = (if hex then 16 else 10 :: nat);
          s3 = (if hex then drop 2 s2 else s2);
          ds = takeWhile (\<lambda>d. d < radix) (map digitVal s3);
          n = int (foldl (\<lambda>a d. a * radix + d) 0 ds)
      in if ds = [] then None else Some (if neg then - n else n))"

section \<open>Configuration (config.ts)\<close>

record auth_config =
  email :: string
  password :: string

record api_config =
  baseUrl :: string
  auth :: auth_config
  minRequestIntervalMs :: int
  timeoutMs :: int
  maxRetries :: int

record db_config =
  host :: string
  port :: "int option"
  database :: string
  user :: string
  dbPassword :: string
  useMock :: bool

record config =
  api :: api_config
  db :: db_config

text \<open>
  \<^verbatim>\<open>process.env\<close> is a map from names to strings.  \<^verbatim>\<open>process.env.X || d\<close> takes \<open>d\<close> when the
  variable is unset or empty.
\<close>

type_synonym env = "string \<Rightarrow> string option"

definition env_or :: "env \<Rightarrow> string \<Rightarrow> string \<Rightarrow> string" where
  "env_or e k d = (case e k of None \<Rightarrow> d | Some v \<Rightarrow> if v = [] then d else v)"

definition load_config :: "env \<Rightarrow> config" where
  "load_config e =
     \<lparr> api = \<lparr> baseUrl = env_or e ''AD_PLATFORM_API_URL'' ''http://localhost:3001'',
               auth = \<lparr> email = env_or e ''API_USERNAME'' ''admin@mixoads.com'',
                        password = env_or e ''API_PASSWORD'' ''SuperSecret123!'' \<rparr>,
               minRequestIntervalMs = 6500,
               timeoutMs = 10000,
               maxRetries = 3 \<rparr>,
       db = \<lparr> host = env_or e ''DB_HOST'' ''localhost'',
              port = parseInt (env_or e ''DB_PORT'' ''5432''),
              database = env_or e ''DB_NAME'' ''mixoads'',
              user = env_or e ''DB_USER'' ''postgres'',
              dbPassword = env_or e ''DB_PASSWORD'' ''postgres'',
              useMock = (e ''USE_MOCK_DB'' = Some ''true'') \<rparr> \<rparr>"

section \<open>The world outside the process\<close>

text \<open>
  Every request the client issues is answered by the world.  The answers to the API
  endpoints are a script, consumed one answer per request; the script is also what bounds
  the retry recursion, and a run that needs an answer the script does not hold has no
  result (\<open>None\<close>).  The authentication endpoint and the database answer by the number of
  the exchange.  Each answer comes with the time it took, in milliseconds.
\<close>

text \<open>
  The endpoints: \<^verbatim>\<open>/auth/token\<close>, \<^verbatim>\<open>/api/campaigns?page=..&limit=..\<close> and
  \<^verbatim>\<open>/api/campaigns/<id>/sync\<close> (the id is whatever value the caller passes).
\<close>

datatype endpoint =
    AuthToken
  | Campaigns nat nat
  | CampaignSync "json option"

text \<open>
  What \<^verbatim>\<open>request\<close> reads of a response: the status, the \<^verbatim>\<open>retry-after\<close> header and the
  body; \<open>body = None\<close> is a body that is not JSON, for which \<^verbatim>\<open>response.json()\<close> rejects.
  A \<^verbatim>\<open>fetch\<close> that does not resolve is aborted by the timeout or fails in the network.
\<close>

record response =
  status :: int
  retryAfter :: "string option"
  body :: "json option"

datatype fetch_outcome =
    Response response
  | Aborted
  | NetworkFailure

text \<open>
  The body of an answer of \<^verbatim>\<open>/auth/token\<close> is the object the API documents,
  \<^verbatim>\<open>{access_token, expires_in}\<close>, where either member may be missing; no body (\<open>None\<close>) is
  one that is not JSON.
\<close>

record auth_body =
  access_token :: "string option"
  expires_in :: "int option"

datatype auth_outcome =
    AuthResponse int "auth_body option"
  | AuthFetchFailed

text \<open>The messages of the logger calls in the source, with the values they interpolate.\<close>

datatype level = INFO | WARN | ERROR | DEBUG

datatype log_msg =
    RateLimitingWaiting int
  | Authenticating
  | AuthenticationSuccessful
  | AuthenticationFailed error
  | Requesting endpoint
  | RateLimitHit "int option"
  | ServerErrorRetrying int int
  | TokenExpiredRefreshing
  | RequestTimedOutRetrying
  | NetworkErrorRetrying int
  | FinalFailure endpoint error
  | StartingSync
  | FetchedTotal nat
  | ProcessingCampaign nat nat "json option" "json option"
  | SuccessfullySynced "json option"
  | FailedToSync "json option" error
  | SyncCompleted nat nat nat
  | FatalError error
  | FetchingPage nat
  | UnexpectedResponseFormat "json option"
  | UsingMockDatabase
  | ConnectedToDatabase
  | FailedToConnect
  | MockUpserted "json option" "json option"
  | SavedCampaign "json option"
  | FailedToSave "json option"
  | PoolClosed
  | FinishedSuccessfully
  | FinishedWithErrors

text \<open>
  The state of the world: the clock (\<^verbatim>\<open>Date.now()\<close>), the answers still to come, the
  requests issued so far with their start times, the log, and the database (whether the
  test connection succeeds, the answer to each query, the queries made and the rows
  written).
\<close>

record world =
  clock :: int
  api_script :: "(nat \<times> fetch_outcome) list"
  auth_server :: "nat \<Rightarrow> nat \<times> auth_outcome"
  calls :: "(int \<times> endpoint) list"
  logs :: "(level \<times> log_msg) list"
  db_connect_ok :: bool
  db_server :: "nat \<Rightarrow> nat \<times> bool"
  db_queries :: "json list"
  rows :: "json list"

text \<open>The logger (utils/logger.ts): one entry per call of a logger method.\<close>

definition logger :: "level \<Rightarrow> log_msg \<Rightarrow> world \<Rightarrow> world" where
  "logger l m w = w\<lparr>logs := logs w @ [(l, m)]\<rparr>"

text \<open>
  \<^verbatim>\<open>sleep(ms)\<close> is \<^verbatim>\<open>setTimeout\<close>: Node replaces a delay that is NaN (\<open>None\<close>), below 1 or
  above \<open>2^31 - 1\<close> by 1.  Time passes only in \<open>sleep\<close> and while a request or a query is
  answered, and a timer fires when it is due.
\<close>

definition setTimeout_delay :: "int option \<Rightarrow> int" where
  "setTimeout_delay ms =
     (case ms of None \<Rightarrow> 1 | Some d \<Rightarrow> if 1 \<le> d \<and> d \<le> 2147483647 then d else 1)"

definition sleep :: "int option \<Rightarrow> world \<Rightarrow> world" where
  "sleep ms w = w\<lparr>clock := clock w + setTimeout_delay ms\<rparr>"

definition auth_count :: "world \<Rightarrow> nat" where
  "auth_count w = length (filter (\<lambda>p. snd p = AuthToken) (calls w))"

section \<open>AdPlatformClient (services/api.ts)\<close>

text \<open>
  The fields of the client.  The methods take the client and the world and return both;
  a method that can throw returns \<open>Inl\<close> of the error or \<open>Inr\<close> of its value.
\<close>

record client =
  accessToken :: "string option"
  tokenExpiry :: int
  lastRequestTime :: int
  minRequestInterval :: int

definition new_client :: "config \<Rightarrow> client" where
  "new_client cfg =
     \<lparr> accessToken = None, tokenExpiry = 0, lastRequestTime = 0,
       minRequestInterval = minRequestIntervalMs (api cfg) \<rparr>"

definition enforceRateLimit :: "client \<Rightarrow> world \<Rightarrow> client \<times> world" where
  "enforceRateLimit c w =
     (let now = clock w;
          timeSinceLastRequest = now - lastRequestTime c;
          w1 = (if timeSinceLastRequest < minRequestInterval c
                then (let waitTime = minRequestInterval c - timeSinceLastRequest
                      in sleep (Some waitTime) (logger DEBUG (RateLimitingWaiting waitTime) w))
                else w)
      in (c\<lparr>lastRequestTime := clock w1\<rparr>, w1))"

text \<open>\<^verbatim>\<open>this.accessToken && ...\<close>: the token is a non-empty string.\<close>

definition hasToken :: "client \<Rightarrow> bool" where
  "hasToken c = (case accessToken c of None \<Rightarrow> False | Some t \<Rightarrow> t \<noteq> [])"

text \<open>\<^verbatim>\<open>response.ok\<close>: the status is in the range 200 to 299.\<close>

definition ok :: "int \<Rightarrow> bool" where
  "ok st = (200 \<le> st \<and> st \<le> 299)"

text \<open>The request to \<^verbatim>\<open>/auth/token\<close>: it starts now and is answered after its latency.\<close>

definition fetch_auth :: "world \<Rightarrow> auth_outcome \<times> world" where
  "fetch_auth w =
     (case auth_server w (auth_count w) of
        (lat, out) \<Rightarrow>
          (out, w\<lparr>clock := clock w + int lat, calls := calls w @ [(clock w, AuthToken)]\<rparr>))"

text \<open>\<^verbatim>\<open>data.expires_in || 3600\<close>: one hour when the server sends no lifetime (or sends 0).\<close>

definition serverLifetime :: "auth_body \<Rightarrow> int" where
  "serverLifetime data =
     (case expires_in data of None \<Rightarrow> 3600 | Some n \<Rightarrow> if n = 0 then 3600 else n)"

text \<open>The \<^verbatim>\<open>catch\<close> block of \<^verbatim>\<open>getAccessToken\<close>: the error is logged and thrown again.\<close>

definition authFailed :: "error \<Rightarrow> client \<Rightarrow> world \<Rightarrow> (error + string option) \<times> client \<times> world" where
  "authFailed e c w = (Inl e, c, logger ERROR (AuthenticationFailed e) w)"

definition getAccessToken ::
  "config \<Rightarrow> client \<Rightarrow> world \<Rightarrow> (error + string option) \<times> client \<times> world" where
  "getAccessToken cfg c w =
     (if hasToken c \<and> clock w < tokenExpiry c then (Inr (accessToken c), c, w)
      else
        (let w1 = logger INFO Authenticating w;
             (c1, w2) = enforceRateLimit c w1;
             (out, w3) = fetch_auth w2
         in case out of
              AuthFetchFailed \<Rightarrow> authFailed FetchError c1 w3
            | AuthResponse st b \<Rightarrow>
                if \<not> ok st then authFailed (ApiError ''Auth failed'' (Some st)) c1 w3
                else
                  (case b of
                     None \<Rightarrow> authFailed FetchError c1 w3
                   | Some data \<Rightarrow>
                       (let expiresIn = serverLifetime data * 1000;
                            c2 = c1\<lparr>accessToken := access_token data,
                                    tokenExpiry := clock w3 + expiresIn - 30000\<rparr>
                        in (Inr (accessToken c2), c2,
                            logger INFO AuthenticationSuccessful w3)))))"

datatype attempt_result = Done "error + json" | Retry

text \<open>The outer \<^verbatim>\<open>catch\<close> of \<^verbatim>\<open>request\<close>: the error is logged on the first attempt only.\<close>

definition finalFailure ::
  "endpoint \<Rightarrow> nat \<Rightarrow> error \<Rightarrow> client \<Rightarrow> world \<Rightarrow> attempt_result \<times> client \<times> world" where
  "finalFailure ep retryCount e c w =
     (Done (Inl e), c, if retryCount = 0 then logger ERROR (FinalFailure ep e) w else w)"

fun isApiError :: "error \<Rightarrow> bool" where
  "isApiError (ApiError m st) = True"
| "isApiError AbortError = False"
| "isApiError FetchError = False"
| "isApiError TypeError = False"
| "isApiError DatabaseError = False"
| "isApiError NotInitialized = False"

text \<open>The inner \<^verbatim>\<open>catch\<close> of \<^verbatim>\<open>request\<close>.\<close>

definition onError ::
  "config \<Rightarrow> endpoint \<Rightarrow> nat \<Rightarrow> error \<Rightarrow> client \<Rightarrow> world \<Rightarrow> attempt_result \<times> client \<times> world" where
  "onError cfg ep retryCount err c w =
     (if err = AbortError then
        (if int retryCount < maxRetries (api cfg)
         then (Retry, c, logger WARN RequestTimedOutRetrying w)
         else finalFailure ep retryCount (ApiError ''Request timeout'' (Some 408)) c w)
      else if isApiError err then finalFailure ep retryCount err c w
      else if int retryCount < maxRetries (api cfg) then
        (let waitMs = 1000 * 2 ^ retryCount
         in (Retry, c, sleep (Some waitMs) (logger WARN (NetworkErrorRetrying waitMs) w)))
      else finalFailure ep retryCount err c w)"

text \<open>The inner \<^verbatim>\<open>try\<close> of \<^verbatim>\<open>request\<close>, once \<^verbatim>\<open>fetch\<close> has resolved with a response.\<close>

definition onResponse ::
  "config \<Rightarrow> endpoint \<Rightarrow> nat \<Rightarrow> response \<Rightarrow> client \<Rightarrow> world \<Rightarrow> attempt_result \<times> client \<times> world" where
  "onResponse cfg ep retryCount resp c w =
     (if status resp = 429 then
        (let waitMs =
               (case retryAfter resp of
                  None \<Rightarrow> Some (2000 * 2 ^ retryCount)
                | Some h \<Rightarrow>
                    if h \<noteq> [] then map_option (\<lambda>n. n * 1000) (parseInt h)
                    else Some (2000 * 2 ^ retryCount))
         in (Retry, c, sleep waitMs (logger WARN (RateLimitHit waitMs) w)))
      else if status resp \<ge> 500 \<and> int retryCount < maxRetries (api cfg) then
        (let waitMs = 1000 * 2 ^ retryCount
         in (Retry, c,
             sleep (Some waitMs) (logger WARN (ServerErrorRetrying (status resp) waitMs) w)))
      else
        (let c1 = (if status resp = 401 then c\<lparr>accessToken := None, tokenExpiry := 0\<rparr> else c)
         in if status resp = 401 \<and> retryCount < 2
            then (Retry, c1, logger WARN TokenExpiredRefreshing w)
            else if \<not> ok (status resp)
            then onError cfg ep retryCount (ApiError ''API Error'' (Some (status resp))) c1 w
            else (case body resp of
                    None \<Rightarrow> onError cfg ep retryCount FetchError c1 w
                  | Some v \<Rightarrow> (Done (Inr v), c1, w))))"

text \<open>
  One attempt of \<^verbatim>\<open>request\<close>: everything the body does up to its \<^verbatim>\<open>return\<close>, its \<^verbatim>\<open>throw\<close> or
  its call of itself; \<open>Retry\<close> stands for \<^verbatim>\<open>return this.request(endpoint, options, retryCount + 1)\<close>.
\<close>

definition attempt ::
  "config \<Rightarrow> endpoint \<Rightarrow> nat \<Rightarrow> client \<Rightarrow> world \<Rightarrow> (attempt_result \<times> client \<times> world) option" where
  "attempt cfg ep retryCount c w =
     (case getAccessToken cfg c w of
        (Inl e, c1, w1) \<Rightarrow> Some (finalFailure ep retryCount e c1 w1)
      | (Inr token, c1, w1) \<Rightarrow>
          (let (c2, w2) = enforceRateLimit c1 w1;
               w3 = logger DEBUG (Requesting ep) w2
           in case api_script w3 of
                [] \<Rightarrow> None
              | (lat, out) # rest \<Rightarrow>
                  (let w4 = w3\<lparr>clock := clock w3 + int lat, api_script := rest,
                               calls := calls w3 @ [(clock w3, ep)]\<rparr>
                   in case out of
                        Response resp \<Rightarrow> Some (onResponse cfg ep retryCount resp c2 w4)
                      | Aborted \<Rightarrow> Some (onError cfg ep retryCount AbortError c2 w4)
                      | NetworkFailure \<Rightarrow> Some (onError cfg ep retryCount FetchError c2 w4))))"

lemma api_script_logger [simp]: "api_script (logger l m w) = api_script w"
  by (simp add: logger_def)

lemma api_script_sleep [simp]: "api_script (sleep ms w) = api_script w"
  by (simp add: sleep_def)

lemma enforceRateLimit_script:
  "enforceRateLimit c w = (c', w') \<Longrightarrow> api_script w' = api_script w"
  by (auto simp: enforceRateLimit_def Let_def split: if_splits)

lemma fetch_auth_script:
  "fetch_auth w = (out, w') \<Longrightarrow> api_script w' = api_script w"
  by (auto simp: fetch_auth_def split: prod.splits)

lemma getAccessToken_script:
  "getAccessToken cfg c w = (r, c', w') \<Longrightarrow> api_script w' = api_script w"
  unfolding getAccessToken_def Let_def authFailed_def
  by (auto split: if_splits prod.splits auth_outcome.splits option.splits
      dest!: enforceRateLimit_script fetch_auth_script)

lemma onError_script:
  "onError cfg ep r e c w = (res, c', w') \<Longrightarrow> api_script w' = api_script w"
  unfolding onError_def finalFailure_def Let_def
  by (auto split: if_splits)

lemma onResponse_script:
  "onResponse cfg ep r resp c w = (res, c', w') \<Longrightarrow> api_script w' = api_script w"
  unfolding onResponse_def Let_def
  by (auto split: if_splits option.splits dest!: onError_script)

lemma attempt_script_le:
  "attempt cfg ep r c w = Some (res, c', w') \<Longrightarrow>
     length (api_script w') \<le> length (api_script w)"
  unfolding attempt_def Let_def finalFailure_def
  by (auto split: prod.splits sum.splits list.splits fetch_outcome.splits
      dest!: enforceRateLimit_script getAccessToken_script onError_script onResponse_script)

lemma attempt_consumes:
  "attempt cfg ep r c w = Some (res, c', w') \<Longrightarrow> res = Retry \<or> res = Done (Inr v) \<Longrightarrow>
     length (api_script w') < length (api_script w)"
  unfolding attempt_def Let_def finalFailure_def
  by (auto split: prod.splits sum.splits list.splits fetch_outcome.splits
      dest!: enforceRateLimit_script getAccessToken_script onError_script onResponse_script)

text \<open>
  \<^verbatim>\<open>request(endpoint, options, retryCount)\<close>.  A retry consumes an answer of the script, so the
  recursion ends with the script.
\<close>

function request ::
  "config \<Rightarrow> endpoint \<Rightarrow> nat \<Rightarrow> client \<Rightarrow> world \<Rightarrow> ((error + json) \<times> client \<times> world) option" where
  "request cfg ep retryCount c w =
     (case attempt cfg ep retryCount c w of
        None \<Rightarrow> None
      | Some (Done r, c', w') \<Rightarrow> Some (r, c', w')
      | Some (Retry, c', w') \<Rightarrow> request cfg ep (retryCount + 1) c' w')"
  by pat_completeness auto
termination
  by (relation "measure (\<lambda>(cfg, ep, r, c, w). length (api_script w))")
    (auto dest: attempt_consumes)

declare request.simps [simp del]

definition getCampaigns ::
  "config \<Rightarrow> nat \<Rightarrow> nat \<Rightarrow> client \<Rightarrow> world \<Rightarrow> ((error + json) \<times> client \<times> world) option" where
  "getCampaigns cfg page limit c w = request cfg (Campaigns page limit) 0 c w"

definition syncCampaign ::
  "config \<Rightarrow> json option \<Rightarrow> client \<Rightarrow> world \<Rightarrow> ((error + json) \<times> client \<times> world) option" where
  "syncCampaign cfg campaignId c w = request cfg (CampaignSync campaignId) 0 c w"

lemma request_consumes:
  "request cfg ep r c w = Some (Inr v, c', w') \<Longrightarrow>
     length (api_script w') < length (api_script w)"
proof (induction cfg ep r c w rule: request.induct)
  case (1 cfg ep retryCount c w)
  from "1.prems" obtain res c1 w1 where a: "attempt cfg ep retryCount c w = Some (res, c1, w1)"
    by (subst (asm) request.simps) (auto split: option.splits)
  show ?case
  proof (cases res)
    case (Done r)
    with a "1.prems" have "r = Inr v" "c1 = c'" "w1 = w'"
      by (subst (asm) request.simps, simp)+
    with a Done show ?thesis by (auto dest: attempt_consumes)
  next
    case Retry
    with a "1.prems" have "request cfg ep (retryCount + 1) c1 w1 = Some (Inr v, c', w')"
      by (subst (asm) request.simps) simp
    with "1.IH" [OF a refl Retry refl] have "length (api_script w') < length (api_script w1)"
      by simp
    moreover from a Retry have "length (api_script w1) < length (api_script w)"
      by (auto dest: attempt_consumes)
    ultimately show ?thesis by simp
  qed
qed

section \<open>SyncService (services/sync.ts)\<close>

text \<open>
  The \<^verbatim>\<open>while (hasMore)\<close> loop of \<^verbatim>\<open>fetchAllCampaigns\<close>, with the loop variables
  \<^verbatim>\<open>allCampaigns\<close> and \<^verbatim>\<open>page\<close> as arguments.
\<close>

function fetchLoop ::
  "config \<Rightarrow> json list \<Rightarrow> nat \<Rightarrow> client \<Rightarrow> world \<Rightarrow>
     ((error + json list) \<times> client \<times> world) option" where
  "fetchLoop cfg allCampaigns page c w =
     (case getCampaigns cfg page 10 c (logger INFO (FetchingPage page) w) of
        None \<Rightarrow> None
      | Some (Inl e, c1, w1) \<Rightarrow> Some (Inl e, c1, w1)
      | Some (Inr response, c1, w1) \<Rightarrow>
          (case (if truthy (Some response) then getprop (Some response) ''data'' else Inr None) of
             Inl e \<Rightarrow> Some (Inl e, c1, w1)
           | Inr None \<Rightarrow>
               Some (Inr allCampaigns, c1,
                     logger WARN (UnexpectedResponseFormat (Some response)) w1)
           | Inr (Some d) \<Rightarrow>
               if truthy (Some d) then
                 (case getprop (Some response) ''pagination'' of
                    Inl e \<Rightarrow> Some (Inl e, c1, w1)
                  | Inr pagination \<Rightarrow>
                      (case getprop pagination ''has_more'' of
                         Inl e \<Rightarrow> Some (Inl e, c1, w1)
                       | Inr hasMore \<Rightarrow>
                           if truthy hasMore
                           then fetchLoop cfg (concat_js allCampaigns d) (page + 1) c1 w1
                           else Some (Inr (concat_js allCampaigns d), c1, w1)))
               else Some (Inr allCampaigns, c1,
                          logger WARN (UnexpectedResponseFormat (Some response)) w1)))"
  by pat_completeness auto
termination
  by (relation "measure (\<lambda>(cfg, acc, page, c, w). length (api_script w))")
    (auto simp: getCampaigns_def dest: request_consumes)

declare fetchLoop.simps [simp del]

definition fetchAllCampaigns ::
  "config \<Rightarrow> client \<Rightarrow> world \<Rightarrow> ((error + json list) \<times> client \<times> world) option" where
  "fetchAllCampaigns cfg c w = fetchLoop cfg [] 1 c w"

section \<open>DatabaseService (services/db.ts)\<close>

text \<open>\<open>pool\<close>: the connection pool has been created.\<close>

record database_service =
  pool :: bool

definition connect ::
  "config \<Rightarrow> database_service \<Rightarrow> world \<Rightarrow> (error + unit) \<times> database_service \<times> world" where
  "connect cfg d w =
     (if useMock (db cfg) then (Inr (), d, logger INFO UsingMockDatabase w)
      else if \<not> pool d then
        (let d1 = d\<lparr>pool := True\<rparr>
         in if db_connect_ok w then (Inr (), d1, logger INFO ConnectedToDatabase w)
            else (Inl DatabaseError, d1, logger ERROR FailedToConnect w))
      else (Inr (), d, w))"

definition upsertCampaign ::
  "config \<Rightarrow> json \<Rightarrow> database_service \<Rightarrow> world \<Rightarrow> (error + unit) \<times> world" where
  "upsertCampaign cfg campaign d w =
     (if useMock (db cfg) then
        (case getprop (Some campaign) ''id'' of
           Inl e \<Rightarrow> (Inl e, w)
         | Inr cid \<Rightarrow>
             (case getprop (Some campaign) ''name'' of
                Inl e \<Rightarrow> (Inl e, w)
              | Inr name \<Rightarrow> (Inr (), logger INFO (MockUpserted cid name) w)))
      else if \<not> pool d then (Inl NotInitialized, w)
      else
        (case getprop (Some campaign) ''id'' of
           Inl e \<Rightarrow> (Inl e, w)
         | Inr cid \<Rightarrow>
             (case db_server w (length (db_queries w)) of
                (lat, success) \<Rightarrow>
                  (let w1 = w\<lparr>clock := clock w + int lat,
                              db_queries := db_queries w @ [campaign]\<rparr>
                   in if success
                      then (Inr (), logger DEBUG (SavedCampaign cid)
                                      (w1\<lparr>rows := rows w1 @ [campaign]\<rparr>))
                      else (Inl DatabaseError, logger ERROR (FailedToSave cid) w1)))))"

text \<open>\<^verbatim>\<open>pool.end()\<close> rejects only when it is called a second time; a run calls it once.\<close>

definition close :: "database_service \<Rightarrow> world \<Rightarrow> world" where
  "close d w = (if pool d then logger INFO PoolClosed w else w)"

section \<open>The run (SyncService.start, index.ts)\<close>

text \<open>The \<^verbatim>\<open>try\<close> block of one iteration of the loop over the campaigns: \<open>True\<close> when it completes.\<close>

definition syncOne ::
  "config \<Rightarrow> json \<Rightarrow> json option \<Rightarrow> json option \<Rightarrow> client \<Rightarrow> database_service \<Rightarrow> world \<Rightarrow>
     (bool \<times> client \<times> world) option" where
  "syncOne cfg campaign name cid c d w =
     (case syncCampaign cfg cid c w of
        None \<Rightarrow> None
      | Some (Inl e, c1, w1) \<Rightarrow> Some (False, c1, logger ERROR (FailedToSync cid e) w1)
      | Some (Inr r, c1, w1) \<Rightarrow>
          (case upsertCampaign cfg campaign d w1 of
             (Inl e, w2) \<Rightarrow> Some (False, c1, logger ERROR (FailedToSync cid e) w2)
           | (Inr u, w2) \<Rightarrow> Some (True, c1, logger INFO (SuccessfullySynced name) w2)))"

text \<open>
  The \<^verbatim>\<open>for\<close> loop of \<^verbatim>\<open>start\<close> over the campaigns from index \<open>i\<close> on, with the counters
  \<^verbatim>\<open>successCount\<close> and \<^verbatim>\<open>failureCount\<close>.  The line that logs the campaign reads its name and
  id outside the \<^verbatim>\<open>try\<close> block.
\<close>

fun processCampaigns ::
  "config \<Rightarrow> json list \<Rightarrow> nat \<Rightarrow> nat \<Rightarrow> nat \<Rightarrow> nat \<Rightarrow> client \<Rightarrow> database_service \<Rightarrow> world \<Rightarrow>
     ((error + nat \<times> nat) \<times> client \<times> world) option" where
  "processCampaigns cfg [] i len successCount failureCount c d w =
     Some (Inr (successCount, failureCount), c, w)"
| "processCampaigns cfg (campaign # rest) i len successCount failureCount c d w =
     (case getprop (Some campaign) ''name'' of
        Inl e \<Rightarrow> Some (Inl e, c, w)
      | Inr name \<Rightarrow>
          (case getprop (Some campaign) ''id'' of
             Inl e \<Rightarrow> Some (Inl e, c, w)
           | Inr cid \<Rightarrow>
               (case syncOne cfg campaign name cid c d
                       (logger INFO (ProcessingCampaign (i + 1) len name cid) w) of
                  None \<Rightarrow> None
                | Some (True, c1, w1) \<Rightarrow>
                    processCampaigns cfg rest (i + 1) len (successCount + 1) failureCount c1 d w1
                | Some (False, c1, w1) \<Rightarrow>
                    processCampaigns cfg rest (i + 1) len successCount (failureCount + 1) c1 d w1)))"

text \<open>The \<^verbatim>\<open>try\<close> block of \<^verbatim>\<open>start\<close>.\<close>

definition startBody ::
  "config \<Rightarrow> client \<Rightarrow> database_service \<Rightarrow> world \<Rightarrow>
     ((error + unit) \<times> client \<times> database_service \<times> world) option" where
  "startBody cfg c d w =
     (case connect cfg d w of
        (Inl e, d1, w1) \<Rightarrow> Some (Inl e, c, d1, w1)
      | (Inr u, d1, w1) \<Rightarrow>
          (case fetchAllCampaigns cfg c w1 of
             None \<Rightarrow> None
           | Some (Inl e, c2, w2) \<Rightarrow> Some (Inl e, c2, d1, w2)
           | Some (Inr allCampaigns, c2, w2) \<Rightarrow>
               (case processCampaigns cfg allCampaigns 0 (length allCampaigns) 0 0 c2 d1
                       (logger INFO (FetchedTotal (length allCampaigns)) w2) of
                  None \<Rightarrow> None
                | Some (Inl e, c3, w3) \<Rightarrow> Some (Inl e, c3, d1, w3)
                | Some (Inr (successCount, failureCount), c3, w3) \<Rightarrow>
                    Some (Inr (), c3, d1,
                          logger INFO
                            (SyncCompleted successCount failureCount (length allCampaigns)) w3))))"

definition start ::
  "config \<Rightarrow> client \<Rightarrow> database_service \<Rightarrow> world \<Rightarrow>
     ((error + unit) \<times> client \<times> database_service \<times> world) option" where
  "start cfg c d w =
     (case startBody cfg c d (logger INFO StartingSync w) of
        None \<Rightarrow> None
      | Some (Inl e, c1, d1, w1) \<Rightarrow> Some (Inl e, c1, d1, close d1 (logger ERROR (FatalError e) w1))
      | Some (Inr u, c1, d1, w1) \<Rightarrow> Some (Inr u, c1, d1, close d1 w1))"

text \<open>\<^verbatim>\<open>main\<close>: a new service in a new process; the result is the exit code.\<close>

definition main :: "config \<Rightarrow> world \<Rightarrow> (int \<times> world) option" where
  "main cfg w =
     (case start cfg (new_client cfg) \<lparr>pool = False\<rparr> w of
        None \<Rightarrow> None
      | Some (Inl e, c1, d1, w1) \<Rightarrow> Some (1, logger ERROR FinishedWithErrors w1)
      | Some (Inr u, c1, d1, w1) \<Rightarrow> Some (0, logger INFO FinishedSuccessfully w1))"

section \<open>Sequences of calls through the client\<close>

text \<open>
  The start times of the requests are well spaced for \<open>m\<close> when each is at least \<open>m\<close>
  after the one before.
\<close>

fun well_spaced :: "int \<Rightarrow> int list \<Rightarrow> bool" where
  "well_spaced m (a # b # ts) = (m \<le> b - a \<and> well_spaced m (b # ts))"
| "well_spaced m [a] = True"
| "well_spaced m [] = True"

text \<open>
  A caller of the client: any sequence of calls of its public methods, each after an idle
  time of the caller's choice; a call that throws does not stop the caller.
\<close>

datatype client_call =
    GetAccessToken
  | GetCampaigns nat nat
  | SyncCampaign "json option"

fun run_calls ::
  "config \<Rightarrow> (nat \<times> client_call) list \<Rightarrow> client \<Rightarrow> world \<Rightarrow> (client \<times> world) option" where
  "run_calls cfg [] c w = Some (c, w)"
| "run_calls cfg ((idle, GetAccessToken) # rest) c w =
     (case getAccessToken cfg c (w\<lparr>clock := clock w + int idle\<rparr>) of
        (r, c', w') \<Rightarrow> run_calls cfg rest c' w')"
| "run_calls cfg ((idle, GetCampaigns page limit) # rest) c w =
     (case getCampaigns cfg page limit c (w\<lparr>clock := clock w + int idle\<rparr>) of
        None \<Rightarrow> None
      | Some (r, c', w') \<Rightarrow> run_calls cfg rest c' w')"
| "run_calls cfg ((idle, SyncCampaign campaignId) # rest) c w =
     (case syncCampaign cfg campaignId c (w\<lparr>clock := clock w + int idle\<rparr>) of
        None \<Rightarrow> None
      | Some (r, c', w') \<Rightarrow> run_calls cfg rest c' w')"

text \<open>
  What \<open>enforceRateLimit\<close> maintains: the requests so far are well spaced, none started
  after \<open>lastRequestTime\<close>, and \<open>lastRequestTime\<close> is not in the future.
\<close>

definition rate_inv :: "client \<Rightarrow> world \<Rightarrow> bool" where
  "rate_inv c w =
     (well_spaced (minRequestInterval c) (map fst (calls w)) \<and>
      (calls w \<noteq> [] \<longrightarrow> fst (last (calls w)) \<le> lastRequestTime c) \<and>
      lastRequestTime c \<le> clock w)"

section \<open>Scripts of answers\<close>

text \<open>The authentication endpoint answers every exchange with a successful response.\<close>

definition auth_always_ok :: "world \<Rightarrow> bool" where
  "auth_always_ok w =
     (\<forall>i. \<exists>lat st data. auth_server w i = (lat, AuthResponse st (Some data)) \<and> ok st)"

text \<open>The number of warnings logged so far.\<close>

definition warnings :: "world \<Rightarrow> nat" where
  "warnings w = length (filter (\<lambda>e. fst e = WARN) (logs w))"

fun is429 :: "nat \<times> fetch_outcome \<Rightarrow> bool" where
  "is429 (lat, Response resp) = (status resp = 429)"
| "is429 (lat, Aborted) = False"
| "is429 (lat, NetworkFailure) = False"

fun is503 :: "nat \<times> fetch_outcome \<Rightarrow> bool" where
  "is503 (lat, Response resp) = (status resp = 503)"
| "is503 (lat, Aborted) = False"
| "is503 (lat, NetworkFailure) = False"

text \<open>What an answer leads to, once the request has been issued.\<close>

definition onOutcome ::
  "config \<Rightarrow> endpoint \<Rightarrow> nat \<Rightarrow> fetch_outcome \<Rightarrow> client \<Rightarrow> world \<Rightarrow> attempt_result \<times> client \<times> world" where
  "onOutcome cfg ep r out c w =
     (case out of
        Response resp \<Rightarrow> onResponse cfg ep r resp c w
      | Aborted \<Rightarrow> onError cfg ep r AbortError c w
      | NetworkFailure \<Rightarrow> onError cfg ep r FetchError c w)"

text \<open>The number of retries made for a 401 so far (each logs its warning).\<close>

definition refreshes :: "world \<Rightarrow> nat" where
  "refreshes w = length (filter (\<lambda>e. snd e = TokenExpiredRefreshing) (logs w))"

text \<open>The endpoints of the API requests issued so far, in order.\<close>

definition requested :: "world \<Rightarrow> endpoint list" where
  "requested w = filter (\<lambda>ep. ep \<noteq> AuthToken) (map snd (calls w))"

text \<open>
  A well-formed page of campaigns, as the API documents it, and the script of a server
  that holds the given pages (each with the time its answer takes) and serves them in
  order from page \<open>n\<close> on, signalling on each page whether another one follows.
\<close>

definition page_body :: "nat \<Rightarrow> json list \<Rightarrow> bool \<Rightarrow> json" where
  "page_body n recs hasMore =
     JObj [(''data'', JArr recs),
           (''pagination'',
            JObj [(''page'', JNum (int n)), (''limit'', JNum 10), (''has_more'', JBool hasMore)])]"

definition ok_response :: "json \<Rightarrow> fetch_outcome" where
  "ok_response v = Response \<lparr>status = 200, retryAfter = None, body = Some v\<rparr>"

fun page_script :: "nat \<Rightarrow> (nat \<times> json list) list \<Rightarrow> (nat \<times> fetch_outcome) list" where
  "page_script n [] = []"
| "page_script n ((lat, recs) # ps) =
     (lat, ok_response (page_body n recs (ps \<noteq> []))) # page_script (Suc n) ps"

text \<open>The requests for the \<open>k\<close> pages from page \<open>n\<close> on, each once, in order.\<close>

fun page_requests :: "nat \<Rightarrow> nat \<Rightarrow> endpoint list" where
  "page_requests n 0 = []"
| "page_requests n (Suc k) = Campaigns n 10 # page_requests (Suc n) k"

text \<open>The run has logged its report (\<^verbatim>\<open>Sync Service Completed\<close>).\<close>

definition reported :: "world \<Rightarrow> bool" where
  "reported w =
     list_ex (\<lambda>e. case snd e of SyncCompleted successCount failureCount len \<Rightarrow> True | _ \<Rightarrow> False)
       (logs w)"

text \<open>The number of answers of a script that are not a 429.\<close>

definition non429 :: "(nat \<times> fetch_outcome) list \<Rightarrow> nat" where
  "non429 script = length (filter (\<lambda>x. \<not> is429 x) script)"

text \<open>
  The most retries a call makes for answers other than 429: those for a 5xx, a timeout or a
  network error stop at \<open>maxRetries\<close>, those for a 401 at 2.
\<close>

definition retryCeiling :: "config \<Rightarrow> nat" where
  "retryCeiling cfg = nat (max (maxRetries (api cfg)) 2)"

section \<open>A concrete configuration and world\<close>

text \<open>
  The configuration without any environment variable, an authentication endpoint that
  always grants a token without a lifetime, a database that accepts every write, and a
  start time.
\<close>

definition demo_config :: config where
  "demo_config = load_config (\<lambda>k. None)"

definition demo_auth :: "nat \<Rightarrow> nat \<times> auth_outcome" where
  "demo_auth i =
     (120, AuthResponse 200 (Some \<lparr>access_token = Some ''token'', expires_in = None\<rparr>))"

definition demo_world :: "(nat \<times> fetch_outcome) list \<Rightarrow> world" where
  "demo_world script =
     \<lparr> clock = 1700000000000, api_script = script, auth_server = demo_auth, calls = [],
       logs = [], db_connect_ok = True, db_server = (\<lambda>i. (5, True)), db_queries = [],
       rows = [] \<rparr>"

text \<open>The same world with an authentication endpoint that grants a lifetime of 7200 s.\<close>

definition demo_world_7200 :: world where
  "demo_world_7200 =
     (demo_world [])\<lparr>auth_server :=
        (\<lambda>i. (120, AuthResponse 200 (Some \<lparr>access_token = Some ''token'', expires_in = Some 7200\<rparr>)))\<rparr>"

text \<open>A client that holds a token valid for one more millisecond.\<close>

definition demo_client :: client where
  "demo_client =
     \<lparr> accessToken = Some ''cached'', tokenExpiry = 1700000000001, lastRequestTime = 0,
       minRequestInterval = 6500 \<rparr>"

text \<open>Two calls through the client, and the answers to them.\<close>

definition demo_calls :: "(nat \<times> client_call) list" where
  "demo_calls = [(0, GetCampaigns 1 10), (250, SyncCampaign (Some (JStr ''c1'')))]"

definition demo_script :: "(nat \<times> fetch_outcome) list" where
  "demo_script = [(80, ok_response (JObj [])), (90, ok_response (JObj []))]"

text \<open>
  An answer with a status, a \<^verbatim>\<open>retry-after\<close> header and no JSON body; five 429 answers (two
  with a header, one of them not a number), three 503 answers, and a 401 after two 429.
\<close>

definition status_response :: "int \<Rightarrow> string option \<Rightarrow> fetch_outcome" where
  "status_response st h = Response \<lparr>status = st, retryAfter = h, body = None\<rparr>"

definition script_429 :: "(nat \<times> fetch_outcome) list" where
  "script_429 =
     [(30, status_response 429 None), (30, status_response 429 (Some ''2'')),
      (30, status_response 429 None), (30, status_response 429 (Some ''soon'')),
      (30, status_response 429 None)]"

definition script_503 :: "(nat \<times> fetch_outcome) list" where
  "script_503 =
     [(30, status_response 503 None), (30, status_response 503 None),
      (30, status_response 503 None)]"

definition script_401 :: "(nat \<times> fetch_outcome) list" where
  "script_401 =
     [(30, status_response 429 None), (30, status_response 429 None),
      (30, status_response 401 None), (80, ok_response (JNum 7))]"

text \<open>
  Three pages of campaigns, the last one partial; a body without \<^verbatim>\<open>pagination\<close> and a body
  without \<^verbatim>\<open>data\<close>.
\<close>

definition demo_pages :: "(nat \<times> json list) list" where
  "demo_pages =
     [(80, [JObj [(''id'', JStr ''c1''), (''name'', JStr ''Campaign 1'')],
            JObj [(''id'', JStr ''c2''), (''name'', JStr ''Campaign 2'')]]),
      (90, [JObj [(''id'', JStr ''c3''), (''name'', JStr ''Campaign 3'')],
            JObj [(''id'', JStr ''c4''), (''name'', JStr ''Campaign 4'')]]),
      (70, [JObj [(''id'', JStr ''c5''), (''name'', JStr ''Campaign 5'')]])]"

definition no_pagination :: "(string \<times> json) list" where
  "no_pagination = [(''data'', JArr [JObj [(''id'', JStr ''c1''), (''name'', JStr ''Campaign 1'')]])]"

definition no_data :: "(string \<times> json) list" where
  "no_data = [(''pagination'', JObj [(''page'', JNum 1), (''limit'', JNum 10), (''has_more'', JBool True)])]"

text \<open>The equations that evaluate a call on a concrete world.\<close>

lemmas eval_defs = getCampaigns_def syncCampaign_def request.simps attempt_def
  getAccessToken_def enforceRateLimit_def fetch_auth_def onResponse_def onError_def
  finalFailure_def authFailed_def Let_def logger_def sleep_def setTimeout_delay_def
  hasToken_def ok_def demo_config_def demo_world_def demo_auth_def demo_client_def
  new_client_def load_config_def env_or_def auth_count_def serverLifetime_def ok_response_def

text \<open>
  A run of three campaigns, served on one page, in which the database rejects the second
  write; the script holds twelve more answers, as many as the three calls could need.
\<close>

definition demo_records :: "json list" where
  "demo_records =
     [JObj [(''id'', JStr ''c1''), (''name'', JStr ''Campaign 1'')],
      JObj [(''id'', JStr ''c2''), (''name'', JStr ''Campaign 2'')],
      JObj [(''id'', JStr ''c3''), (''name'', JStr ''Campaign 3'')]]"

definition demo_run_world :: world where
  "demo_run_world =
     (demo_world (page_script 1 [(80, demo_records)] @ replicate 12 (90, ok_response (JObj []))))
       \<lparr>db_server := (\<lambda>i. (5, i \<noteq> 1))\<rparr>"

lemmas run_defs = main_def start_def startBody_def connect_def close_def fetchAllCampaigns_def
  fetchLoop.simps syncOne_def upsertCampaign_def page_body_def demo_records_def
  demo_run_world_def

text \<open>A run in which the second of the three fetched records is \<^verbatim>\<open>null\<close>.\<close>

definition null_record_world :: world where
  "null_record_world =
     demo_world
       (page_script 1 [(80, [demo_records ! 0, JNull, demo_records ! 2])] @
        replicate 12 (90, ok_response (JObj [])))"

text \<open>
  An environment that sets every variable the configuration reads, and three that it does
  not read.
\<close>

definition demo_env :: env where
  "demo_env =
     [''AD_PLATFORM_API_URL'' \<mapsto> ''https://ads.example.com'', ''API_USERNAME'' \<mapsto> ''sync@example.com'',
      ''API_PASSWORD'' \<mapsto> ''s3cret'', ''DB_HOST'' \<mapsto> ''db.internal'', ''DB_PORT'' \<mapsto> ''6543'',
      ''DB_NAME'' \<mapsto> ''ads'', ''DB_USER'' \<mapsto> ''sync'', ''DB_PASSWORD'' \<mapsto> ''pg-s3cret'',
      ''USE_MOCK_DB'' \<mapsto> ''true'', ''MIN_REQUEST_INTERVAL_MS'' \<mapsto> ''1000'',
      ''REQUEST_TIMEOUT_MS'' \<mapsto> ''500'', ''MAX_RETRIES'' \<mapsto> ''7'']"

text \<open>
  The run on that world: exit code 0, the one failure logged, the first and the third
  campaign written, the report 2 / 1 / 3, and five requests in all.
\<close>

lemma demo_run_counts:
  "map_option fst (main demo_config demo_run_world) = Some 0 \<and>
   map_option (filter (\<lambda>e. fst e = ERROR) \<circ> logs \<circ> snd) (main demo_config demo_run_world) =
     Some [(ERROR, FailedToSave (Some (JStr ''c2''))),
           (ERROR, FailedToSync (Some (JStr ''c2'')) DatabaseError)] \<and>
   map_option (rows \<circ> snd) (main demo_config demo_run_world) =
     Some [demo_records ! 0, demo_records ! 2] \<and>
   map_option (\<lambda>p. (INFO, SyncCompleted 2 1 3) \<in> set (logs (snd p))) (main demo_config demo_run_world)
     = Some True \<and>
   map_option (\<lambda>p. length (calls (snd p))) (main demo_config demo_run_world) = Some 5"
  by (simp add: run_defs eval_defs numeral_eq_Suc)

section \<open>The token cache\<close>

lemma enforceRateLimit_fields:
  "enforceRateLimit c w = (c', w') \<Longrightarrow>
     calls w' = calls w \<and> auth_server w' = auth_server w \<and> clock w \<le> clock w'
     \<and> accessToken c' = accessToken c \<and> tokenExpiry c' = tokenExpiry c
     \<and> minRequestInterval c' = minRequestInterval c"
  by (auto simp: enforceRateLimit_def Let_def sleep_def logger_def setTimeout_delay_def
      split: if_splits)

text \<open>
  Claim C6.  When a non-empty token is cached and the clock is before its expiry,
  \<open>getAccessToken\<close> returns the cached token and leaves client and world as they are (no
  request is issued).  Otherwise, when the authentication endpoint answers with a
  successful response, \<open>getAccessToken\<close> issues exactly one request to it and caches the
  token with expiry = the time the answer arrived + the lifetime - 30 s, where the
  lifetime is the \<^verbatim>\<open>expires_in\<close> of the answer in seconds, and 3600 s when the answer has none
  (or has 0, which JavaScript's \<^verbatim>\<open>||\<close> takes for none); a further call before that expiry
  returns the same token without a request, so two calls before the expiry make one
  exchange.
\<close>

theorem getAccessToken_caches:
  "(hasToken c \<and> clock w < tokenExpiry c \<longrightarrow>
      getAccessToken cfg c w = (Inr (accessToken c), c, w)) \<and>
   (\<not> (hasToken c \<and> clock w < tokenExpiry c) \<and>
      auth_server w (auth_count w) = (lat, AuthResponse st (Some data)) \<and> ok st \<longrightarrow>
      (\<exists>c' w'. getAccessToken cfg c w = (Inr (access_token data), c', w') \<and>
         accessToken c' = access_token data \<and>
         tokenExpiry c' =
           clock w' +
           (case expires_in data of None \<Rightarrow> 3600 | Some n \<Rightarrow> if n = 0 then 3600 else n) * 1000 -
           30000 \<and>
         calls w' = calls w @ [(clock w' - int lat, AuthToken)] \<and>
         auth_count w' = auth_count w + 1 \<and>
         (\<forall>w''. hasToken c' \<and> clock w'' < tokenExpiry c' \<longrightarrow>
            getAccessToken cfg c' w'' = (Inr (access_token data), c', w''))))"
proof (intro conjI impI)
  assume "hasToken c \<and> clock w < tokenExpiry c"
  then show "getAccessToken cfg c w = (Inr (accessToken c), c, w)"
    by (simp add: getAccessToken_def)
next
  assume a: "\<not> (hasToken c \<and> clock w < tokenExpiry c) \<and>
      auth_server w (auth_count w) = (lat, AuthResponse st (Some data)) \<and> ok st"
  obtain c1 w1 where e: "enforceRateLimit c (logger INFO Authenticating w) = (c1, w1)"
    by (cases "enforceRateLimit c (logger INFO Authenticating w)")
  from enforceRateLimit_fields [OF e]
  have f: "calls w1 = calls w" "auth_server w1 = auth_server w"
    by (simp_all add: logger_def)
  let ?w3 = "w1\<lparr>clock := clock w1 + int lat, calls := calls w1 @ [(clock w1, AuthToken)]\<rparr>"
  let ?c2 = "c1\<lparr>accessToken := access_token data,
                 tokenExpiry := clock ?w3 + serverLifetime data * 1000 - 30000\<rparr>"
  have fa: "fetch_auth w1 = (AuthResponse st (Some data), ?w3)"
    using a f by (simp add: fetch_auth_def auth_count_def)
  from a have n: "(hasToken c \<and> clock w < tokenExpiry c) = False" and o: "ok st"
    by simp_all
  have g: "getAccessToken cfg c w =
             (Inr (access_token data), ?c2, logger INFO AuthenticationSuccessful ?w3)"
    unfolding getAccessToken_def n using o e fa by (simp add: Let_def)
  show "\<exists>c' w'. getAccessToken cfg c w = (Inr (access_token data), c', w') \<and>
         accessToken c' = access_token data \<and>
         tokenExpiry c' =
           clock w' +
           (case expires_in data of None \<Rightarrow> 3600 | Some n \<Rightarrow> if n = 0 then 3600 else n) * 1000 -
           30000 \<and>
         calls w' = calls w @ [(clock w' - int lat, AuthToken)] \<and>
         auth_count w' = auth_count w + 1 \<and>
         (\<forall>w''. hasToken c' \<and> clock w'' < tokenExpiry c' \<longrightarrow>
            getAccessToken cfg c' w'' = (Inr (access_token data), c', w''))"
    apply (rule exI [of _ ?c2])
    apply (rule exI [of _ "logger INFO AuthenticationSuccessful ?w3"])
    using g f by (simp add: logger_def auth_count_def getAccessToken_def serverLifetime_def)
qed

theorem getAccessToken_caches_witness:
  "hasToken demo_client \<and> clock (demo_world []) < tokenExpiry demo_client \<and>
   getAccessToken demo_config demo_client (demo_world []) =
     (Inr (Some ''cached''), demo_client, demo_world []) \<and>
   \<not> hasToken (new_client demo_config) \<and> ok 200 \<and>
   fst (getAccessToken demo_config (new_client demo_config) (demo_world [])) =
     Inr (Some ''token'') \<and>
   clock (snd (snd (getAccessToken demo_config (new_client demo_config) (demo_world [])))) =
     1700000000120 \<and>
   tokenExpiry (fst (snd (getAccessToken demo_config (new_client demo_config) (demo_world [])))) =
     1700003570120 \<and>
   calls (snd (snd (getAccessToken demo_config (new_client demo_config) (demo_world [])))) =
     [(1700000000000, AuthToken)] \<and>
   auth_count (snd (snd (getAccessToken demo_config
      (fst (snd (getAccessToken demo_config (new_client demo_config) (demo_world []))))
      (snd (snd (getAccessToken demo_config (new_client demo_config) (demo_world []))))))) = 1 \<and>
   tokenExpiry (fst (snd (getAccessToken demo_config (new_client demo_config) demo_world_7200))) =
     1700007170120"
proof -
  let ?c = "new_client demo_config"
  let ?w = "demo_world []"
  let ?d = "\<lparr>access_token = Some ''token'', expires_in = None\<rparr>"
  let ?d2 = "\<lparr>access_token = Some ''token'', expires_in = Some 7200\<rparr>"
  have hit: "hasToken demo_client \<and> clock ?w < tokenExpiry demo_client"
    by (simp add: demo_client_def demo_world_def hasToken_def)
  note t0 = getAccessToken_caches [where c = demo_client and w = ?w and cfg = demo_config,
      THEN conjunct1, THEN mp, OF hit]
  have miss: "\<not> (hasToken ?c \<and> clock ?w < tokenExpiry ?c) \<and>
      auth_server ?w (auth_count ?w) = (120, AuthResponse 200 (Some ?d)) \<and> ok 200"
    by (simp add: new_client_def hasToken_def demo_world_def demo_auth_def auth_count_def ok_def)
  from getAccessToken_caches [where cfg = demo_config, THEN conjunct2, THEN mp, OF miss]
  obtain c' w' where g: "getAccessToken demo_config ?c ?w = (Inr (access_token ?d), c', w')"
    and x: "tokenExpiry c' = clock w' + 3600 * 1000 - 30000"
    and k: "calls w' = calls ?w @ [(clock w' - int 120, AuthToken)]"
    and n: "auth_count w' = auth_count ?w + 1"
    and s: "\<forall>w''. hasToken c' \<and> clock w'' < tokenExpiry c' \<longrightarrow>
            getAccessToken demo_config c' w'' = (Inr (access_token ?d), c', w'')"
    and tk: "accessToken c' = access_token ?d"
    by auto
  have cl: "clock (snd (snd (getAccessToken demo_config ?c ?w))) = 1700000000120"
    by (simp add: eval_defs)
  with g have cw: "clock w' = 1700000000120" by simp
  from tk x cw have "hasToken c' \<and> clock w' < tokenExpiry c'"
    by (simp add: hasToken_def)
  with s have again: "getAccessToken demo_config c' w' = (Inr (access_token ?d), c', w')"
    by blast
  have z: "calls ?w = []" "auth_count ?w = 0"
    by (simp_all add: demo_world_def auth_count_def)
  have miss2: "\<not> (hasToken ?c \<and> clock demo_world_7200 < tokenExpiry ?c) \<and>
      auth_server demo_world_7200 (auth_count demo_world_7200) = (120, AuthResponse 200 (Some ?d2)) \<and>
      ok 200"
    by (simp add: new_client_def hasToken_def demo_world_7200_def demo_world_def auth_count_def
        ok_def)
  from getAccessToken_caches [where cfg = demo_config, THEN conjunct2, THEN mp, OF miss2]
  obtain c2 w2 where g2: "getAccessToken demo_config ?c demo_world_7200 = (Inr (access_token ?d2), c2, w2)"
    and x2: "tokenExpiry c2 = clock w2 + 7200 * 1000 - 30000"
    by auto
  have "clock (snd (snd (getAccessToken demo_config ?c demo_world_7200))) = 1700000000120"
    by (simp add: eval_defs demo_world_7200_def)
  with g2 have cw2: "clock w2 = 1700000000120" by simp
  have nt: "\<not> hasToken ?c" "ok 200"
    by (simp_all add: new_client_def hasToken_def ok_def)
  from hit t0 nt g x k n again cw z g2 x2 cw2 show ?thesis
    by (simp add: demo_client_def)
qed


section \<open>The rate limit\<close>

lemma well_spaced_snoc:
  "well_spaced m (ts @ [t]) = (well_spaced m ts \<and> (ts \<noteq> [] \<longrightarrow> m \<le> t - last ts))"
  by (induction m ts rule: well_spaced.induct) auto

lemma rate_inv_logger [simp]: "rate_inv c (logger l m w) = rate_inv c w"
  by (simp add: rate_inv_def logger_def)

lemma setTimeout_delay_pos: "0 < setTimeout_delay ms"
  by (simp add: setTimeout_delay_def split: option.splits)

lemma rate_inv_sleep: "rate_inv c w \<Longrightarrow> rate_inv c (sleep ms w)"
  using setTimeout_delay_pos [of ms] by (simp add: rate_inv_def sleep_def)

lemma rate_inv_token [simp]:
  "rate_inv (c\<lparr>accessToken := a, tokenExpiry := b\<rparr>) w = rate_inv c w"
  by (simp add: rate_inv_def)

lemma enforceRateLimit_waits:
  assumes "enforceRateLimit c w = (c1, w1)" "lastRequestTime c \<le> clock w"
    "minRequestInterval c \<le> 2147483647"
  shows "lastRequestTime c1 = clock w1 \<and> lastRequestTime c + minRequestInterval c \<le> clock w1
     \<and> clock w \<le> clock w1 \<and> calls w1 = calls w \<and> minRequestInterval c1 = minRequestInterval c"
  using assms
  by (auto simp: enforceRateLimit_def Let_def sleep_def logger_def setTimeout_delay_def
      split: if_splits)

lemma rate_inv_call:
  assumes "rate_inv c w" "minRequestInterval c \<le> 2147483647" "enforceRateLimit c w = (c1, w1)"
    "calls w2 = calls w1 @ [(clock w1, ep)]" "clock w1 \<le> clock w2"
  shows "rate_inv c1 w2"
proof -
  from assms(1) have l: "lastRequestTime c \<le> clock w" by (simp add: rate_inv_def)
  note e = enforceRateLimit_waits [OF assms(3) l assms(2)]
  show ?thesis
    using assms(1,4,5) e
    by (auto simp: rate_inv_def well_spaced_snoc last_map)
qed


lemma fetch_auth_rate:
  assumes "rate_inv c w" "minRequestInterval c \<le> 2147483647" "enforceRateLimit c w = (c1, w1)"
    "fetch_auth w1 = (out, w2)"
  shows "rate_inv c1 w2"
  using assms(4)
  by (auto simp: fetch_auth_def split: prod.splits
      intro!: rate_inv_call [OF assms(1,2,3), where ep = AuthToken])

lemma getAccessToken_rate:
  assumes "rate_inv c w" "minRequestInterval c \<le> 2147483647"
    "getAccessToken cfg c w = (r, c', w')"
  shows "rate_inv c' w' \<and> minRequestInterval c' = minRequestInterval c"
proof (cases "hasToken c \<and> clock w < tokenExpiry c")
  case True
  with assms show ?thesis by (simp add: getAccessToken_def)
next
  case False
  obtain c1 w1 where e: "enforceRateLimit c (logger INFO Authenticating w) = (c1, w1)"
    by (cases "enforceRateLimit c (logger INFO Authenticating w)")
  obtain out w2 where f: "fetch_auth w1 = (out, w2)"
    by (cases "fetch_auth w1")
  from assms(1) have i: "rate_inv c (logger INFO Authenticating w)" by simp
  have r: "rate_inv c1 w2" by (rule fetch_auth_rate [OF i assms(2) e f])
  have m: "minRequestInterval c1 = minRequestInterval c"
    using e by (auto simp: enforceRateLimit_def Let_def)
  from False have n: "(hasToken c \<and> clock w < tokenExpiry c) = False" by simp
  show ?thesis
    using assms(3) r m unfolding getAccessToken_def n
    by (auto simp: e f Let_def authFailed_def
        split: auth_outcome.splits option.splits if_splits)
qed

lemma onError_rate:
  "rate_inv c w \<Longrightarrow> onError cfg ep r e c w = (res, c', w') \<Longrightarrow>
     rate_inv c' w' \<and> minRequestInterval c' = minRequestInterval c"
  unfolding onError_def finalFailure_def Let_def
  by (auto split: if_splits intro: rate_inv_sleep)

lemma onResponse_rate:
  "rate_inv c w \<Longrightarrow> onResponse cfg ep r resp c w = (res, c', w') \<Longrightarrow>
     rate_inv c' w' \<and> minRequestInterval c' = minRequestInterval c"
  unfolding onResponse_def Let_def
  by (auto split: if_splits option.splits intro: rate_inv_sleep dest: onError_rate [rotated])

lemma attempt_rate:
  assumes "rate_inv c w" "minRequestInterval c \<le> 2147483647"
    "attempt cfg ep r c w = Some (res, c', w')"
  shows "rate_inv c' w' \<and> minRequestInterval c' = minRequestInterval c"
proof -
  obtain t c1 w1 where g: "getAccessToken cfg c w = (t, c1, w1)"
    by (cases "getAccessToken cfg c w")
  note g1 = getAccessToken_rate [OF assms(1,2) g]
  show ?thesis
  proof (cases t)
    case (Inl e)
    with assms(3) g g1 show ?thesis
      by (auto simp: attempt_def finalFailure_def split: if_splits)
  next
    case (Inr token)
    obtain c2 w2 where e: "enforceRateLimit c1 w1 = (c2, w2)"
      by (cases "enforceRateLimit c1 w1")
    from g1 assms(2) have m1: "minRequestInterval c1 \<le> 2147483647" by simp
    from e have m2: "minRequestInterval c2 = minRequestInterval c1"
      by (auto simp: enforceRateLimit_def Let_def)
    from assms(3) g Inr e obtain lat out rest where
      s: "api_script w2 = (lat, out) # rest"
      by (cases "api_script w2") (auto simp: attempt_def Let_def)
    let ?w4 = "(logger DEBUG (Requesting ep) w2)\<lparr>clock := clock w2 + int lat, api_script := rest,
                   calls := calls w2 @ [(clock w2, ep)]\<rparr>"
    have r4: "rate_inv c2 ?w4"
      by (rule rate_inv_call [OF conjunct1 [OF g1] m1 e, where ep = ep]) (simp_all add: logger_def)
    from assms(3) g Inr e s
    have "(out = Aborted \<and> onError cfg ep r AbortError c2 ?w4 = (res, c', w')) \<or>
          (out = NetworkFailure \<and> onError cfg ep r FetchError c2 ?w4 = (res, c', w')) \<or>
          (\<exists>resp. out = Response resp \<and> onResponse cfg ep r resp c2 ?w4 = (res, c', w'))"
      by (cases out) (auto simp: attempt_def Let_def logger_def)
    with r4 m2 g1 show ?thesis
      by (auto dest: onError_rate [rotated] onResponse_rate [rotated])
  qed
qed

lemma request_rate:
  "rate_inv c w \<Longrightarrow> minRequestInterval c \<le> 2147483647 \<Longrightarrow>
   request cfg ep r c w = Some (res, c', w') \<Longrightarrow>
     rate_inv c' w' \<and> minRequestInterval c' = minRequestInterval c"
proof (induction cfg ep r c w rule: request.induct)
  case (1 cfg ep retryCount c w)
  from "1.prems"(3) obtain ar c1 w1 where a: "attempt cfg ep retryCount c w = Some (ar, c1, w1)"
    by (subst (asm) request.simps) (auto split: option.splits)
  note a1 = attempt_rate [OF "1.prems"(1,2) a]
  show ?case
  proof (cases ar)
    case (Done x)
    with a "1.prems"(3) have "c1 = c'" "w1 = w'"
      by (subst (asm) request.simps, simp)+
    with a1 show ?thesis by simp
  next
    case Retry
    with a "1.prems"(3) have "request cfg ep (retryCount + 1) c1 w1 = Some (res, c', w')"
      by (subst (asm) request.simps) simp
    with "1.IH" [OF a refl Retry refl] a1 "1.prems"(2) show ?thesis by simp
  qed
qed

lemma rate_inv_idle: "rate_inv c w \<Longrightarrow> rate_inv c (w\<lparr>clock := clock w + int idle\<rparr>)"
  by (simp add: rate_inv_def)

lemma run_calls_rate:
  "rate_inv c w \<Longrightarrow> minRequestInterval c \<le> 2147483647 \<Longrightarrow>
   run_calls cfg ops c w = Some (c', w') \<Longrightarrow>
     rate_inv c' w' \<and> minRequestInterval c' = minRequestInterval c"
proof (induction cfg ops c w rule: run_calls.induct)
  case (1 cfg c w)
  then show ?case by simp
next
  case (2 cfg idle rest c w)
  obtain r c1 w1 where g: "getAccessToken cfg c (w\<lparr>clock := clock w + int idle\<rparr>) = (r, c1, w1)"
    by (cases "getAccessToken cfg c (w\<lparr>clock := clock w + int idle\<rparr>)")
  from getAccessToken_rate [OF rate_inv_idle [OF "2.prems"(1)] "2.prems"(2) g] "2.prems" g
    "2.IH" [OF g [symmetric] refl]
  show ?case by simp
next
  case (3 cfg idle page limit rest c w)
  from "3.prems"(3) obtain r c1 w1 where
    g: "getCampaigns cfg page limit c (w\<lparr>clock := clock w + int idle\<rparr>) = Some (r, c1, w1)"
    by (auto split: option.splits)
  from request_rate [OF rate_inv_idle [OF "3.prems"(1)] "3.prems"(2) g [unfolded getCampaigns_def]]
    "3.prems" g "3.IH" [OF g refl refl]
  show ?case by simp
next
  case (4 cfg idle campaignId rest c w)
  from "4.prems"(3) obtain r c1 w1 where
    g: "syncCampaign cfg campaignId c (w\<lparr>clock := clock w + int idle\<rparr>) = Some (r, c1, w1)"
    by (auto split: option.splits)
  from request_rate [OF rate_inv_idle [OF "4.prems"(1)] "4.prems"(2) g [unfolded syncCampaign_def]]
    "4.prems" g "4.IH" [OF g refl refl]
  show ?case by simp
qed

lemma fetchLoop_rate:
  "rate_inv c w \<Longrightarrow> minRequestInterval c \<le> 2147483647 \<Longrightarrow>
   fetchLoop cfg acc page c w = Some (res, c', w') \<Longrightarrow>
     rate_inv c' w' \<and> minRequestInterval c' = minRequestInterval c"
proof (induction cfg acc page c w rule: fetchLoop.induct)
  case (1 cfg allCampaigns page c w)
  let ?w0 = "logger INFO (FetchingPage page) w"
  from "1.prems"(3) obtain r c1 w1 where
    g: "getCampaigns cfg page 10 c ?w0 = Some (r, c1, w1)"
    by (subst (asm) fetchLoop.simps) (auto split: option.splits)
  from "1.prems"(1) have "rate_inv c ?w0" by simp
  from request_rate [OF this "1.prems"(2) g [unfolded getCampaigns_def]]
  have r1: "rate_inv c1 w1" "minRequestInterval c1 = minRequestInterval c"
    by simp_all
  show ?case
  proof (cases "\<exists>response d pagination hasMore. r = Inr response \<and> truthy (Some response) \<and>
      getprop (Some response) ''data'' = Inr (Some d) \<and> truthy (Some d) \<and>
      getprop (Some response) ''pagination'' = Inr pagination \<and>
      getprop pagination ''has_more'' = Inr hasMore \<and> truthy hasMore")
    case True
    then obtain response d pagination hasMore where t: "r = Inr response"
      "truthy (Some response)" "getprop (Some response) ''data'' = Inr (Some d)"
      "truthy (Some d)" "getprop (Some response) ''pagination'' = Inr pagination"
      "getprop pagination ''has_more'' = Inr hasMore" "truthy hasMore"
      by blast
    with g "1.prems"(3)
    have "fetchLoop cfg (concat_js allCampaigns d) (page + 1) c1 w1 = Some (res, c', w')"
      by (subst (asm) fetchLoop.simps) simp
    moreover from t have
      "(if truthy (Some response) then getprop (Some response) ''data'' else Inr None) =
         Inr (Some d)"
      by simp
    moreover from r1 "1.prems"(2) have "minRequestInterval c1 \<le> 2147483647" by simp
    ultimately have "rate_inv c' w' \<and> minRequestInterval c' = minRequestInterval c1"
      using "1.IH" [OF g refl t(1) refl _ refl t(4) t(5) t(6) t(7) r1(1)] by blast
    with r1 show ?thesis by simp
  next
    case False
    with g "1.prems"(3) have "c' = c1 \<and> (w' = w1 \<or> (\<exists>m. w' = logger WARN m w1))"
      by (subst (asm) fetchLoop.simps)
        (auto split: sum.splits option.splits if_splits)
    with r1 show ?thesis by auto
  qed
qed


lemma upsertCampaign_rate:
  "rate_inv c w \<Longrightarrow> upsertCampaign cfg campaign d w = (r, w') \<Longrightarrow> rate_inv c w'"
  unfolding upsertCampaign_def Let_def
  by (auto simp: rate_inv_def logger_def split: if_splits sum.splits prod.splits)

lemma syncOne_rate:
  assumes "rate_inv c w" "minRequestInterval c \<le> 2147483647"
    "syncOne cfg campaign name cid c d w = Some (b, c', w')"
  shows "rate_inv c' w' \<and> minRequestInterval c' = minRequestInterval c"
proof -
  from assms(3) obtain res c1 w1 where q: "syncCampaign cfg cid c w = Some (res, c1, w1)"
    by (auto simp: syncOne_def split: option.splits)
  from request_rate [OF assms(1,2) q [unfolded syncCampaign_def]]
  have r1: "rate_inv c1 w1" "minRequestInterval c1 = minRequestInterval c"
    by simp_all
  show ?thesis
  proof (cases res)
    case (Inl e)
    with assms(3) q r1 show ?thesis by (auto simp: syncOne_def)
  next
    case (Inr v)
    obtain r w2 where u: "upsertCampaign cfg campaign d w1 = (r, w2)"
      by (cases "upsertCampaign cfg campaign d w1")
    from upsertCampaign_rate [OF r1(1) u] assms(3) q Inr u r1(2) show ?thesis
      by (cases r) (auto simp: syncOne_def)
  qed
qed

lemma processCampaigns_rate:
  "rate_inv c w \<Longrightarrow> minRequestInterval c \<le> 2147483647 \<Longrightarrow>
   processCampaigns cfg campaigns i len s f c d w = Some (res, c', w') \<Longrightarrow>
     rate_inv c' w' \<and> minRequestInterval c' = minRequestInterval c"
proof (induction campaigns arbitrary: i s f c w)
  case Nil
  then show ?case by simp
next
  case (Cons campaign rest)
  show ?case
  proof (cases "\<exists>name cid. getprop (Some campaign) ''name'' = Inr name \<and>
      getprop (Some campaign) ''id'' = Inr cid")
    case False
    with Cons.prems show ?thesis
      by (auto split: sum.splits)
  next
    case True
    then obtain name cid where p: "getprop (Some campaign) ''name'' = Inr name"
      "getprop (Some campaign) ''id'' = Inr cid"
      by blast
    let ?w0 = "logger INFO (ProcessingCampaign (i + 1) len name cid) w"
    from Cons.prems(3) p obtain b c1 w1 where
      q: "syncOne cfg campaign name cid c d ?w0 = Some (b, c1, w1)"
      by (auto split: option.splits)
    from Cons.prems(1) have "rate_inv c ?w0" by simp
    from syncOne_rate [OF this Cons.prems(2) q]
    have r1: "rate_inv c1 w1" "minRequestInterval c1 = minRequestInterval c"
      by simp_all
    with Cons.prems(2) have m: "minRequestInterval c1 \<le> 2147483647" by simp
    from Cons.prems(3) p q have
      "processCampaigns cfg rest (i + 1) len (if b then s + 1 else s) (if b then f else f + 1)
         c1 d w1 = Some (res, c', w')"
      by (cases b) simp_all
    from Cons.IH [OF r1(1) m this] r1(2) show ?thesis by simp
  qed
qed

lemma connect_rate:
  "rate_inv c w \<Longrightarrow> connect cfg d w = (r, d', w') \<Longrightarrow> rate_inv c w'"
  by (auto simp: connect_def Let_def split: if_splits)

lemma close_rate [simp]: "rate_inv c (close d w) = rate_inv c w"
  by (simp add: close_def)

lemma startBody_rate:
  assumes "rate_inv c w" "minRequestInterval c \<le> 2147483647"
    "startBody cfg c d w = Some (r, c', d', w')"
  shows "rate_inv c' w' \<and> minRequestInterval c' = minRequestInterval c"
proof -
  obtain r1 d1 w1 where cn: "connect cfg d w = (r1, d1, w1)"
    by (cases "connect cfg d w")
  note i1 = connect_rate [OF assms(1) cn]
  show ?thesis
  proof (cases r1)
    case (Inl e)
    with assms(3) cn i1 show ?thesis by (simp add: startBody_def)
  next
    case (Inr u)
    with assms(3) cn obtain r2 c2 w2 where
      fa: "fetchAllCampaigns cfg c w1 = Some (r2, c2, w2)"
      by (auto simp: startBody_def split: option.splits)
    from fetchLoop_rate [OF i1 assms(2) fa [unfolded fetchAllCampaigns_def]]
    have i2: "rate_inv c2 w2" "minRequestInterval c2 = minRequestInterval c"
      by simp_all
    show ?thesis
    proof (cases r2)
      case (Inl e)
      with assms(3) cn Inr fa i2 show ?thesis by (simp add: startBody_def)
    next
      case (Inr allCampaigns)
      let ?w3 = "logger INFO (FetchedTotal (length allCampaigns)) w2"
      from assms(3) cn \<open>r1 = Inr u\<close> fa Inr obtain r3 c3 w3 where
        pc: "processCampaigns cfg allCampaigns 0 (length allCampaigns) 0 0 c2 d1 ?w3 =
               Some (r3, c3, w3)"
        by (auto simp: startBody_def split: option.splits)
      from i2 assms(2) have "rate_inv c2 ?w3" "minRequestInterval c2 \<le> 2147483647"
        by simp_all
      from processCampaigns_rate [OF this pc] i2(2)
      have i3: "rate_inv c3 w3" "minRequestInterval c3 = minRequestInterval c"
        by simp_all
      from assms(3) cn \<open>r1 = Inr u\<close> fa Inr pc i3 show ?thesis
        by (cases r3) (auto simp: startBody_def)
    qed
  qed
qed

lemma main_rate:
  assumes "minRequestIntervalMs (api cfg) \<le> 2147483647" "0 \<le> clock w" "calls w = []"
    "main cfg w = Some (code, w')"
  shows "well_spaced (minRequestIntervalMs (api cfg)) (map fst (calls w'))"
proof -
  let ?c = "new_client cfg"
  let ?w0 = "logger INFO StartingSync w"
  from assms(2,3) have "rate_inv ?c w"
    by (simp add: rate_inv_def new_client_def)
  then have i: "rate_inv ?c ?w0"
    by simp
  from assms(1) have m: "minRequestInterval ?c \<le> 2147483647"
    by (simp add: new_client_def)
  from assms(4) obtain r c1 d1 w1 where
    sb: "startBody cfg ?c \<lparr>pool = False\<rparr> ?w0 = Some (r, c1, d1, w1)"
    by (auto simp: main_def start_def split: option.splits)
  from startBody_rate [OF i m sb]
  have i1: "rate_inv c1 w1" "minRequestInterval c1 = minRequestIntervalMs (api cfg)"
    by (simp_all add: new_client_def)
  from assms(4) sb i1(1) have "rate_inv c1 w'"
    by (cases r) (auto simp: main_def start_def)
  with i1(2) show ?thesis
    by (auto simp: rate_inv_def)
qed

text \<open>
  Claim C1.  Whatever sequence of calls is made through the client (\<open>getAccessToken\<close>,
  \<open>getCampaigns\<close>, \<open>syncCampaign\<close>, at any moments), the start times of all requests it
  issues, the authentication requests included, are at least \<open>minRequestInterval\<close> apart:
  every request is issued right after \<open>enforceRateLimit\<close>.  The same holds of all requests
  of a run of the program, for the configured interval.  (Time is the clock of the model:
  it does not run backwards and a timer fires when it is due; the interval is within the
  range of a timer.)
\<close>

theorem rate_limit_respected:
  "(minRequestInterval c \<le> 2147483647 \<and> lastRequestTime c \<le> clock w \<and> calls w = [] \<and>
    run_calls cfg ops c w = Some (c', w') \<longrightarrow>
      well_spaced (minRequestInterval c) (map fst (calls w'))) \<and>
   (minRequestIntervalMs (api cfg) \<le> 2147483647 \<and> 0 \<le> clock w \<and> calls w = [] \<and>
    main cfg w = Some (code, w'') \<longrightarrow>
      well_spaced (minRequestIntervalMs (api cfg)) (map fst (calls w'')))"
proof (intro conjI impI)
  assume h: "minRequestInterval c \<le> 2147483647 \<and> lastRequestTime c \<le> clock w \<and> calls w = [] \<and>
    run_calls cfg ops c w = Some (c', w')"
  then have "rate_inv c w" by (simp add: rate_inv_def)
  with h run_calls_rate [of c w cfg ops c' w']
  show "well_spaced (minRequestInterval c) (map fst (calls w'))"
    by (auto simp: rate_inv_def)
next
  assume "minRequestIntervalMs (api cfg) \<le> 2147483647 \<and> 0 \<le> clock w \<and> calls w = [] \<and>
    main cfg w = Some (code, w'')"
  then show "well_spaced (minRequestIntervalMs (api cfg)) (map fst (calls w''))"
    by (auto intro: main_rate)
qed

theorem rate_limit_respected_witness:
  "minRequestInterval (new_client demo_config) \<le> 2147483647 \<and>
   lastRequestTime (new_client demo_config) \<le> clock (demo_world demo_script) \<and>
   calls (demo_world demo_script) = [] \<and>
   (case run_calls demo_config demo_calls (new_client demo_config) (demo_world demo_script) of
      None \<Rightarrow> False
    | Some (c', w') \<Rightarrow>
        map fst (calls w') = [1700000000000, 1700000006500, 1700000013000] \<and>
        well_spaced 6500 (map fst (calls w'))) \<and>
   minRequestIntervalMs (api demo_config) \<le> 2147483647 \<and> 0 \<le> clock demo_run_world \<and>
   calls demo_run_world = [] \<and>
   (case main demo_config demo_run_world of
      None \<Rightarrow> False
    | Some (code, w') \<Rightarrow> length (calls w') = 5 \<and> well_spaced 6500 (map fst (calls w')))"
proof -
  have h: "minRequestInterval (new_client demo_config) \<le> 2147483647 \<and>
    lastRequestTime (new_client demo_config) \<le> clock (demo_world demo_script) \<and>
    calls (demo_world demo_script) = []"
    by (simp add: eval_defs)
  have "\<exists>c' w'. run_calls demo_config demo_calls (new_client demo_config) (demo_world demo_script)
           = Some (c', w') \<and> map fst (calls w') = [1700000000000, 1700000006500, 1700000013000]"
    by (simp add: eval_defs demo_calls_def demo_script_def)
  then obtain c' w' where
    r: "run_calls demo_config demo_calls (new_client demo_config) (demo_world demo_script) = Some (c', w')"
    and t: "map fst (calls w') = [1700000000000, 1700000006500, 1700000013000]"
    by (elim exE conjE)
  from h r have hr: "minRequestInterval (new_client demo_config) \<le> 2147483647 \<and>
    lastRequestTime (new_client demo_config) \<le> clock (demo_world demo_script) \<and>
    calls (demo_world demo_script) = [] \<and>
    run_calls demo_config demo_calls (new_client demo_config) (demo_world demo_script) = Some (c', w')"
    by simp
  from rate_limit_respected [THEN conjunct1, THEN mp, OF hr]
  have a: "well_spaced 6500 (map fst (calls w'))"
    by (simp add: eval_defs)
  have g: "minRequestIntervalMs (api demo_config) \<le> 2147483647 \<and> 0 \<le> clock demo_run_world \<and>
    calls demo_run_world = []"
    by (simp add: demo_config_def load_config_def demo_run_world_def demo_world_def)
  from demo_run_counts obtain code w2 where
    m: "main demo_config demo_run_world = Some (code, w2)" and l: "length (calls w2) = 5"
    by (cases "main demo_config demo_run_world") auto
  from g m have gm: "minRequestIntervalMs (api demo_config) \<le> 2147483647 \<and>
    0 \<le> clock demo_run_world \<and> calls demo_run_world = [] \<and>
    main demo_config demo_run_world = Some (code, w2)"
    by simp
  from rate_limit_respected [THEN conjunct2, THEN mp, OF gm]
  have b: "well_spaced 6500 (map fst (calls w2))"
    by (simp add: demo_config_def load_config_def)
  from h r t a g m l b show ?thesis by simp
qed

section \<open>Retries of a request\<close>

lemma logger_fields [simp]:
  "auth_server (logger l m w) = auth_server w"
  "calls (logger l m w) = calls w"
  "clock (logger l m w) = clock w"
  "warnings (logger l m w) = (if l = WARN then warnings w + 1 else warnings w)"
  "requested (logger l m w) = requested w"
  by (simp_all add: logger_def warnings_def requested_def)

lemma sleep_fields [simp]:
  "auth_server (sleep ms w) = auth_server w"
  "calls (sleep ms w) = calls w"
  "warnings (sleep ms w) = warnings w"
  "requested (sleep ms w) = requested w"
  by (simp_all add: sleep_def warnings_def requested_def)

lemma enforceRateLimit_keeps:
  "enforceRateLimit c w = (c', w') \<Longrightarrow>
     api_script w' = api_script w \<and> auth_server w' = auth_server w \<and> warnings w' = warnings w
     \<and> calls w' = calls w \<and> accessToken c' = accessToken c \<and> tokenExpiry c' = tokenExpiry c
     \<and> requested w' = requested w"
  by (auto simp: enforceRateLimit_def Let_def split: if_splits)

lemma getAccessToken_succeeds:
  assumes "auth_always_ok w"
  shows "\<exists>tok c1 w1. getAccessToken cfg c w = (Inr tok, c1, w1) \<and> api_script w1 = api_script w
     \<and> auth_server w1 = auth_server w \<and> warnings w1 = warnings w \<and> requested w1 = requested w"
proof (cases "hasToken c \<and> clock w < tokenExpiry c")
  case True
  then show ?thesis by (simp add: getAccessToken_def)
next
  case False
  obtain c1 w1 where e: "enforceRateLimit c (logger INFO Authenticating w) = (c1, w1)"
    by (cases "enforceRateLimit c (logger INFO Authenticating w)")
  from enforceRateLimit_keeps [OF e] have k: "auth_server w1 = auth_server w"
    "api_script w1 = api_script w" "warnings w1 = warnings w" "requested w1 = requested w"
    by simp_all
  from assms obtain lat st data where
    a: "auth_server w (auth_count w1) = (lat, AuthResponse st (Some data))" "ok st"
    unfolding auth_always_ok_def by blast
  let ?w3 = "w1\<lparr>clock := clock w1 + int lat, calls := calls w1 @ [(clock w1, AuthToken)]\<rparr>"
  have f: "fetch_auth w1 = (AuthResponse st (Some data), ?w3)"
    using a k by (simp add: fetch_auth_def)
  have k3: "auth_server ?w3 = auth_server w" "api_script ?w3 = api_script w"
    "warnings ?w3 = warnings w" "requested ?w3 = requested w"
    using k by (simp_all add: warnings_def requested_def)
  from False have n: "(hasToken c \<and> clock w < tokenExpiry c) = False" by simp
  show ?thesis
    unfolding getAccessToken_def n
    using a(2) k3 by (simp add: e f Let_def del: logger_fields(4)) (simp add: k3)
qed

lemma attempt_step:
  assumes "auth_always_ok w" "api_script w = (lat, out) # rest"
  shows "\<exists>c2 w4. attempt cfg ep r c w = Some (onOutcome cfg ep r out c2 w4) \<and>
     api_script w4 = rest \<and> auth_server w4 = auth_server w \<and> warnings w4 = warnings w \<and>
     requested w4 = requested w @ filter (\<lambda>ep. ep \<noteq> AuthToken) [ep]"
proof -
  from getAccessToken_succeeds [OF assms(1), of cfg c] obtain tok c1 w1 where
    g: "getAccessToken cfg c w = (Inr tok, c1, w1)" "api_script w1 = api_script w"
      "auth_server w1 = auth_server w" "warnings w1 = warnings w" "requested w1 = requested w"
    by blast
  obtain c2 w2 where e: "enforceRateLimit c1 w1 = (c2, w2)"
    by (cases "enforceRateLimit c1 w1")
  from enforceRateLimit_keeps [OF e] g assms(2) have k: "auth_server w2 = auth_server w"
    "api_script w2 = (lat, out) # rest" "warnings w2 = warnings w" "requested w2 = requested w"
    by simp_all
  let ?w3 = "logger DEBUG (Requesting ep) w2"
  let ?w4 = "?w3\<lparr>clock := clock ?w3 + int lat, api_script := rest,
                  calls := calls ?w3 @ [(clock ?w3, ep)]\<rparr>"
  have a: "attempt cfg ep r c w = Some (onOutcome cfg ep r out c2 ?w4)"
    using g(1) e k(2) by (cases out) (simp_all add: attempt_def Let_def onOutcome_def)
  have "api_script ?w4 = rest" "auth_server ?w4 = auth_server w" "warnings ?w4 = warnings w"
    "requested ?w4 = requested w @ filter (\<lambda>ep. ep \<noteq> AuthToken) [ep]"
    using k by (simp_all add: warnings_def logger_def requested_def)
  with a show ?thesis by blast
qed

lemma request_retry:
  "attempt cfg ep r c w = Some (Retry, c1, w1) \<Longrightarrow>
     request cfg ep r c w = request cfg ep (r + 1) c1 w1"
  by (subst request.simps) simp

lemma request_done:
  "attempt cfg ep r c w = Some (Done x, c1, w1) \<Longrightarrow> request cfg ep r c w = Some (x, c1, w1)"
  by (subst request.simps) simp

lemma auth_always_ok_cong:
  "auth_server w' = auth_server w \<Longrightarrow> auth_always_ok w' = auth_always_ok w"
  by (simp add: auth_always_ok_def)

lemma onResponse_429:
  "status resp = 429 \<Longrightarrow> \<exists>w'. onResponse cfg ep r resp c w = (Retry, c, w') \<and>
     api_script w' = api_script w \<and> auth_server w' = auth_server w \<and>
     warnings w' = warnings w + 1"
  by (simp add: onResponse_def Let_def)

lemma onResponse_ok:
  "ok (status resp) \<Longrightarrow> body resp = Some v \<Longrightarrow>
     onResponse cfg ep r resp c w = (Done (Inr v), c, w)"
  by (auto simp add: onResponse_def Let_def ok_def)

lemma request_after_429s:
  assumes "list_all is429 pre" "ok (status resp)" "body resp = Some v"
  shows "auth_always_ok w \<Longrightarrow> api_script w = pre @ (lat, Response resp) # rest \<Longrightarrow>
     \<exists>c' w'. request cfg ep r c w = Some (Inr v, c', w') \<and> api_script w' = rest \<and>
        warnings w' = warnings w + length pre"
  using assms(1)
proof (induction pre arbitrary: r c w)
  case Nil
  from attempt_step [OF Nil(1), of lat "Response resp" rest cfg ep r c] Nil(2)
  obtain c2 w4 where "attempt cfg ep r c w = Some (onOutcome cfg ep r (Response resp) c2 w4)"
    "api_script w4 = rest" "warnings w4 = warnings w"
    by auto
  then show ?case
    using assms(2,3) by (auto simp: onOutcome_def onResponse_ok dest!: request_done)
next
  case (Cons a pre)
  obtain l o' where a: "a = (l, o')" by (cases a)
  with Cons(4) obtain resp' where o: "o' = Response resp'" "status resp' = 429"
    by (cases o') auto
  from attempt_step [OF Cons(2), of l o' "pre @ (lat, Response resp) # rest" cfg ep r c] Cons(3) a
  obtain c2 w4 where s: "attempt cfg ep r c w = Some (onOutcome cfg ep r o' c2 w4)"
    "api_script w4 = pre @ (lat, Response resp) # rest" "auth_server w4 = auth_server w"
    "warnings w4 = warnings w"
    by auto
  from onResponse_429 [OF o(2), of cfg ep r c2 w4] obtain w5 where
    r: "onResponse cfg ep r resp' c2 w4 = (Retry, c2, w5)" "api_script w5 = api_script w4"
      "auth_server w5 = auth_server w4" "warnings w5 = warnings w4 + 1"
    by blast
  from s r o have "attempt cfg ep r c w = Some (Retry, c2, w5)"
    by (simp add: onOutcome_def)
  then have "request cfg ep r c w = request cfg ep (r + 1) c2 w5"
    by (rule request_retry)
  moreover have "auth_always_ok w5"
    using Cons(2) r(3) s(3) by (simp add: auth_always_ok_def)
  moreover have "api_script w5 = pre @ (lat, Response resp) # rest"
    using r(2) s(2) by simp
  moreover from Cons(4) have "list_all is429 pre" by simp
  ultimately show ?case
    using Cons.IH [of w5 "r + 1" c2] r(4) s(4) by auto
qed

lemma script_429_run:
  "map_option (\<lambda>(r, c, w). (r, clock w, map fst (calls w)))
     (request demo_config (Campaigns 1 10) 0 (new_client demo_config)
           (demo_world (script_429 @ [(80, ok_response (JNum 7))]))) =
   Some (Inr (JNum 7), 1700000066140, [1700000000000, 1700000006500, 1700000013000, 1700000019500,
      1700000027530, 1700000034030, 1700000066060])"
  by (simp add: eval_defs script_429_def status_response_def parseInt_def isSpace_def digitVal_def)

text \<open>
  Claim C3.  When authentication succeeds, a call whose first \<open>k\<close> answers are 429 (any
  \<open>k\<close>, whatever the retry count it starts from and whatever \<open>maxRetries\<close> is) and whose
  next answer is a 2xx response with a JSON body returns that body, having consumed
  exactly these answers.
\<close>

theorem request_429_never_exhausts:
  assumes "auth_always_ok w" "api_script w = pre @ (lat, Response resp) # rest"
    "list_all is429 pre" "ok (status resp)" "body resp = Some v"
  shows "\<exists>c' w'. request cfg ep r c w = Some (Inr v, c', w') \<and> api_script w' = rest"
  using request_after_429s [OF assms(3,4,5,1,2), of cfg ep r c] by blast


lemma parseInt_examples:
  "parseInt ''2'' = Some 2" "parseInt ''soon'' = None" "parseInt '' -12px'' = Some (- 12)"
  "parseInt ''0x1F'' = Some 31" "parseInt ''5432'' = Some 5432"
  by (simp_all add: parseInt_def isSpace_def digitVal_def Let_def)

lemma auth_always_ok_demo [simp]: "auth_always_ok (demo_world s)"
  by (simp add: auth_always_ok_def demo_world_def demo_auth_def ok_def)

theorem request_429_never_exhausts_witness:
  "auth_always_ok (demo_world (script_429 @ [(80, ok_response (JNum 7))])) \<and>
   list_all is429 script_429 \<and> maxRetries (api demo_config) < int (length script_429) \<and>
   (case request demo_config (Campaigns 1 10) 0 (new_client demo_config)
           (demo_world (script_429 @ [(80, ok_response (JNum 7))])) of
      None \<Rightarrow> False
    | Some (r, c', w') \<Rightarrow> r = Inr (JNum 7) \<and> api_script w' = [])"
proof -
  have a: "auth_always_ok (demo_world (script_429 @ [(80, ok_response (JNum 7))]))"
    by simp
  have b: "api_script (demo_world (script_429 @ [(80, ok_response (JNum 7))])) =
             script_429 @ (80, Response \<lparr>status = 200, retryAfter = None, body = Some (JNum 7)\<rparr>) # []"
    by (simp add: demo_world_def ok_response_def)
  have c: "list_all is429 script_429"
    by (simp add: script_429_def status_response_def)
  have d: "maxRetries (api demo_config) < int (length script_429)"
    by (simp add: script_429_def demo_config_def load_config_def)
  from request_429_never_exhausts [OF a b c, of "JNum 7" demo_config "Campaigns 1 10" 0
      "new_client demo_config"]
  show ?thesis using a c d by (auto simp: ok_def)
qed

lemma onResponse_503_retry:
  "status resp = 503 \<Longrightarrow> int r < maxRetries (api cfg) \<Longrightarrow>
     \<exists>w'. onResponse cfg ep r resp c w = (Retry, c, w') \<and> api_script w' = api_script w \<and>
       auth_server w' = auth_server w \<and> warnings w' = warnings w + 1"
  by (simp add: onResponse_def Let_def)

lemma onResponse_503_exhausted:
  "status resp = 503 \<Longrightarrow> \<not> int r < maxRetries (api cfg) \<Longrightarrow>
     \<exists>w'. onResponse cfg ep r resp c w = (Done (Inl (ApiError ''API Error'' (Some 503))), c, w') \<and>
       api_script w' = api_script w \<and> warnings w' = warnings w"
  by (simp add: onResponse_def onError_def finalFailure_def Let_def ok_def)

lemma request_after_503s:
  "list_all is503 pre \<Longrightarrow> int (r + length pre) \<le> maxRetries (api cfg) \<Longrightarrow>
   auth_always_ok w \<Longrightarrow> api_script w = pre @ rest \<Longrightarrow>
     \<exists>c1 w1. request cfg ep r c w = request cfg ep (r + length pre) c1 w1 \<and>
        api_script w1 = rest \<and> auth_always_ok w1 \<and> warnings w1 = warnings w + length pre"
proof (induction pre arbitrary: r c w)
  case Nil
  then show ?case by auto
next
  case (Cons a pre)
  obtain l o' where a: "a = (l, o')" by (cases a)
  with Cons.prems(1) obtain resp where o: "o' = Response resp" "status resp = 503"
    by (cases o') auto
  from attempt_step [OF Cons.prems(3), of l o' "pre @ rest" cfg ep r c] Cons.prems(4) a
  obtain c2 w4 where s: "attempt cfg ep r c w = Some (onOutcome cfg ep r o' c2 w4)"
    "api_script w4 = pre @ rest" "auth_server w4 = auth_server w" "warnings w4 = warnings w"
    by auto
  from Cons.prems(2) have lt: "int r < maxRetries (api cfg)" by simp
  from onResponse_503_retry [OF o(2) lt, of ep c2 w4] obtain w5 where
    r: "onResponse cfg ep r resp c2 w4 = (Retry, c2, w5)" "api_script w5 = api_script w4"
      "auth_server w5 = auth_server w4" "warnings w5 = warnings w4 + 1"
    by blast
  from s r o have "attempt cfg ep r c w = Some (Retry, c2, w5)"
    by (simp add: onOutcome_def)
  then have q: "request cfg ep r c w = request cfg ep (r + 1) c2 w5"
    by (rule request_retry)
  have "auth_always_ok w5"
    using Cons.prems(3) r(3) s(3) by (simp add: auth_always_ok_def)
  moreover have "api_script w5 = pre @ rest"
    using r(2) s(2) by simp
  moreover from Cons.prems(1) have "list_all is503 pre" by simp
  moreover from Cons.prems(2) have "int (r + 1 + length pre) \<le> maxRetries (api cfg)" by simp
  ultimately obtain c1 w1 where
    "request cfg ep (r + 1) c2 w5 = request cfg ep (r + 1 + length pre) c1 w1"
    "api_script w1 = rest" "auth_always_ok w1" "warnings w1 = warnings w5 + length pre"
    using Cons.IH [of "r + 1" w5 c2] by blast
  with q r(4) s(4) show ?case
    by (intro exI [of _ c1] exI [of _ w1]) simp
qed

text \<open>
  Claim C4.  With \<open>maxRetries = 3\<close> and authentication succeeding, a call answered 503, 503,
  503 and then 200 returns the payload of the 200 and logs exactly three warnings; a call
  answered 503 four times throws the API error of status 503 after these four requests
  (three retries, three warnings) and issues no further request.
\<close>

theorem retry_503_within_ceiling:
  assumes "auth_always_ok w" "maxRetries (api cfg) = 3" "is503 a" "is503 b" "is503 d"
  shows "(api_script w = a # b # d # (lat, Response resp) # rest \<and> status resp = 200 \<and>
            body resp = Some v \<longrightarrow>
            (\<exists>c' w'. request cfg ep 0 c w = Some (Inr v, c', w') \<and>
               warnings w' = warnings w + 3 \<and> api_script w' = rest)) \<and>
         (api_script w = a # b # d # e # rest \<and> is503 e \<longrightarrow>
            (\<exists>c' w'. request cfg ep 0 c w =
                 Some (Inl (ApiError ''API Error'' (Some 503)), c', w') \<and>
               warnings w' = warnings w + 3 \<and> api_script w' = rest))"
proof (intro conjI impI)
  assume h: "api_script w = a # b # d # (lat, Response resp) # rest \<and> status resp = 200 \<and>
            body resp = Some v"
  have "\<exists>c1 w1. request cfg ep 0 c w = request cfg ep (0 + length [a, b, d]) c1 w1 \<and>
        api_script w1 = (lat, Response resp) # rest \<and> auth_always_ok w1 \<and>
        warnings w1 = warnings w + length [a, b, d]"
    using assms h by (intro request_after_503s) simp_all
  then obtain c1 w1 where q: "request cfg ep 0 c w = request cfg ep 3 c1 w1"
    "api_script w1 = (lat, Response resp) # rest" "auth_always_ok w1"
    "warnings w1 = warnings w + 3"
    by (auto simp: numeral_3_eq_3)
  from attempt_step [OF q(3,2), of cfg ep 3 c1]
  obtain c2 w4 where s: "attempt cfg ep 3 c1 w1 = Some (onOutcome cfg ep 3 (Response resp) c2 w4)"
    "api_script w4 = rest" "warnings w4 = warnings w1"
    by auto
  from h have "onResponse cfg ep 3 resp c2 w4 = (Done (Inr v), c2, w4)"
    by (simp add: onResponse_ok ok_def)
  with s have "request cfg ep 3 c1 w1 = Some (Inr v, c2, w4)"
    by (simp add: onOutcome_def request_done)
  with q s show "\<exists>c' w'. request cfg ep 0 c w = Some (Inr v, c', w') \<and>
               warnings w' = warnings w + 3 \<and> api_script w' = rest"
    by simp
next
  assume h: "api_script w = a # b # d # e # rest \<and> is503 e"
  obtain l o' where e: "e = (l, o')" by (cases e)
  with h obtain resp' where o: "o' = Response resp'" "status resp' = 503"
    by (cases o') auto
  have "\<exists>c1 w1. request cfg ep 0 c w = request cfg ep (0 + length [a, b, d]) c1 w1 \<and>
        api_script w1 = e # rest \<and> auth_always_ok w1 \<and>
        warnings w1 = warnings w + length [a, b, d]"
    using assms h by (intro request_after_503s) simp_all
  then obtain c1 w1 where q: "request cfg ep 0 c w = request cfg ep 3 c1 w1"
    "api_script w1 = e # rest" "auth_always_ok w1" "warnings w1 = warnings w + 3"
    by (auto simp: numeral_3_eq_3)
  from attempt_step [OF q(3), of l o' rest cfg ep 3 c1] q(2) e
  obtain c2 w4 where s: "attempt cfg ep 3 c1 w1 = Some (onOutcome cfg ep 3 o' c2 w4)"
    "api_script w4 = rest" "warnings w4 = warnings w1"
    by auto
  from assms(2) have "\<not> int 3 < maxRetries (api cfg)" by simp
  from onResponse_503_exhausted [OF o(2) this, of ep c2 w4] obtain w5 where
    "onResponse cfg ep 3 resp' c2 w4 = (Done (Inl (ApiError ''API Error'' (Some 503))), c2, w5)"
    "api_script w5 = api_script w4" "warnings w5 = warnings w4"
    by blast
  with s o have "request cfg ep 3 c1 w1 = Some (Inl (ApiError ''API Error'' (Some 503)), c2, w5)"
    "api_script w5 = rest" "warnings w5 = warnings w1"
    by (simp_all add: onOutcome_def request_done)
  with q show "\<exists>c' w'. request cfg ep 0 c w =
                 Some (Inl (ApiError ''API Error'' (Some 503)), c', w') \<and>
               warnings w' = warnings w + 3 \<and> api_script w' = rest"
    by simp
qed

theorem retry_503_within_ceiling_witness:
  "auth_always_ok (demo_world (script_503 @ [(80, ok_response (JNum 7))])) \<and>
   maxRetries (api demo_config) = 3 \<and> list_all is503 script_503 \<and>
   (case request demo_config (Campaigns 1 10) 0 (new_client demo_config)
           (demo_world (script_503 @ [(80, ok_response (JNum 7))])) of
      None \<Rightarrow> False
    | Some (r, c', w') \<Rightarrow> r = Inr (JNum 7) \<and> warnings w' = 3 \<and> api_script w' = []) \<and>
   (case request demo_config (Campaigns 1 10) 0 (new_client demo_config)
           (demo_world (script_503 @ [(30, status_response 503 None), (80, ok_response (JNum 7))])) of
      None \<Rightarrow> False
    | Some (r, c', w') \<Rightarrow>
        r = Inl (ApiError ''API Error'' (Some 503)) \<and> warnings w' = 3 \<and>
        api_script w' = [(80, ok_response (JNum 7))])"
proof -
  have m: "maxRetries (api demo_config) = 3"
    by (simp add: demo_config_def load_config_def)
  have i: "is503 (30, status_response 503 None)"
    by (simp add: status_response_def)
  have z: "warnings (demo_world s) = 0" for s
    by (simp add: warnings_def demo_world_def)
  let ?x = "(30, status_response 503 None)"
  let ?R = "\<lparr>status = 200, retryAfter = None, body = Some (JNum 7)\<rparr>"
  have s1: "api_script (demo_world (script_503 @ [(80, ok_response (JNum 7))])) =
              ?x # ?x # ?x # (80, Response ?R) # [] \<and> status ?R = 200 \<and> body ?R = Some (JNum 7)"
    by (simp add: script_503_def demo_world_def ok_response_def)
  have s2: "api_script (demo_world (script_503 @ [?x, (80, ok_response (JNum 7))])) =
              ?x # ?x # ?x # ?x # [(80, ok_response (JNum 7))] \<and> is503 ?x"
    using i by (simp add: script_503_def demo_world_def)
  note t1 = retry_503_within_ceiling [where cfg = demo_config and ep = "Campaigns 1 10"
        and c = "new_client demo_config", OF auth_always_ok_demo m i i i,
        THEN conjunct1, THEN mp, OF s1]
  note t2 = retry_503_within_ceiling [where cfg = demo_config and ep = "Campaigns 1 10"
        and c = "new_client demo_config", OF auth_always_ok_demo m i i i,
        THEN conjunct2, THEN mp, OF s2]
  have l: "list_all is503 script_503"
    using i by (simp add: script_503_def)
  from t1 t2 show ?thesis
    using m l by (auto simp: z)
qed

section \<open>Unauthorized answers\<close>

lemma refreshes_logger:
  "refreshes (logger l m w) = (if m = TokenExpiredRefreshing then refreshes w + 1 else refreshes w)"
  by (simp add: refreshes_def logger_def)

lemma refreshes_sleep [simp]: "refreshes (sleep ms w) = refreshes w"
  by (simp add: refreshes_def sleep_def)

lemma enforceRateLimit_refreshes:
  "enforceRateLimit c w = (c', w') \<Longrightarrow> refreshes w' = refreshes w"
  by (auto simp: enforceRateLimit_def Let_def refreshes_logger split: if_splits)

lemma fetch_auth_refreshes: "fetch_auth w = (out, w') \<Longrightarrow> refreshes w' = refreshes w"
  by (auto simp: fetch_auth_def refreshes_def split: prod.splits)

lemma getAccessToken_refreshes:
  "getAccessToken cfg c w = (r, c', w') \<Longrightarrow> refreshes w' = refreshes w"
  unfolding getAccessToken_def Let_def authFailed_def
  by (auto simp: refreshes_logger split: if_splits prod.splits auth_outcome.splits option.splits
      dest!: enforceRateLimit_refreshes fetch_auth_refreshes)

lemma onError_refreshes:
  "onError cfg ep r e c w = (res, c', w') \<Longrightarrow> refreshes w' = refreshes w"
  unfolding onError_def finalFailure_def Let_def
  by (auto simp: refreshes_logger split: if_splits)

lemma onResponse_refreshes:
  "onResponse cfg ep r resp c w = (res, c', w') \<Longrightarrow>
     refreshes w' = refreshes w \<or> (r < 2 \<and> res = Retry \<and> refreshes w' = refreshes w + 1)"
  unfolding onResponse_def Let_def
  by (auto simp: refreshes_logger split: if_splits option.splits dest!: onError_refreshes)

lemma attempt_refreshes:
  assumes "attempt cfg ep r c w = Some (res, c', w')"
  shows "refreshes w' = refreshes w \<or> (r < 2 \<and> res = Retry \<and> refreshes w' = refreshes w + 1)"
proof -
  obtain t c1 w1 where g: "getAccessToken cfg c w = (t, c1, w1)"
    by (cases "getAccessToken cfg c w")
  note g1 = getAccessToken_refreshes [OF g]
  show ?thesis
  proof (cases t)
    case (Inl e)
    with assms g g1 show ?thesis
      by (auto simp: attempt_def finalFailure_def refreshes_logger split: if_splits)
  next
    case (Inr token)
    obtain c2 w2 where e: "enforceRateLimit c1 w1 = (c2, w2)"
      by (cases "enforceRateLimit c1 w1")
    note e1 = enforceRateLimit_refreshes [OF e]
    from assms g Inr e obtain lat out rest where
      s: "api_script w2 = (lat, out) # rest"
      by (cases "api_script w2") (auto simp: attempt_def Let_def)
    let ?w4 = "(logger DEBUG (Requesting ep) w2)\<lparr>clock := clock w2 + int lat, api_script := rest,
                   calls := calls w2 @ [(clock w2, ep)]\<rparr>"
    have r4: "refreshes ?w4 = refreshes w"
      using g1 e1 by (simp add: refreshes_def logger_def)
    from assms g Inr e s
    have "onOutcome cfg ep r out c2 ?w4 = (res, c', w')"
      by (cases out) (auto simp: attempt_def Let_def logger_def onOutcome_def)
    then have "refreshes w' = refreshes ?w4 \<or> (r < 2 \<and> res = Retry \<and> refreshes w' = refreshes ?w4 + 1)"
      by (cases out) (auto simp: onOutcome_def dest: onError_refreshes onResponse_refreshes)
    with r4 show ?thesis by simp
  qed
qed

lemma request_refreshes:
  "request cfg ep r c w = Some (res, c', w') \<Longrightarrow> refreshes w' \<le> refreshes w + (2 - r)"
proof (induction cfg ep r c w rule: request.induct)
  case (1 cfg ep retryCount c w)
  from "1.prems" obtain ar c1 w1 where a: "attempt cfg ep retryCount c w = Some (ar, c1, w1)"
    by (subst (asm) request.simps) (auto split: option.splits)
  note a1 = attempt_refreshes [OF a]
  show ?case
  proof (cases ar)
    case (Done x)
    with a "1.prems" have "w1 = w'"
      by (subst (asm) request.simps) simp
    with a1 Done show ?thesis by auto
  next
    case Retry
    with a "1.prems" have "request cfg ep (retryCount + 1) c1 w1 = Some (res, c', w')"
      by (subst (asm) request.simps) simp
    with "1.IH" [OF a refl Retry refl] a1 show ?thesis by auto
  qed
qed

lemma onResponse_401:
  "status resp = 401 \<Longrightarrow>
     onResponse cfg ep r resp c w =
       (if r < 2 then (Retry, c\<lparr>accessToken := None, tokenExpiry := 0\<rparr>,
                       logger WARN TokenExpiredRefreshing w)
        else (Done (Inl (ApiError ''API Error'' (Some 401))),
              c\<lparr>accessToken := None, tokenExpiry := 0\<rparr>, w))"
  by (simp add: onResponse_def onError_def finalFailure_def Let_def ok_def)

lemma getAccessToken_miss_exchanges:
  assumes "\<not> (hasToken c \<and> clock w < tokenExpiry c)"
  shows "auth_count (snd (snd (getAccessToken cfg c w))) = auth_count w + 1"
proof -
  obtain c1 w1 where e: "enforceRateLimit c (logger INFO Authenticating w) = (c1, w1)"
    by (cases "enforceRateLimit c (logger INFO Authenticating w)")
  from enforceRateLimit_keeps [OF e] have k: "calls w1 = calls w" by simp
  obtain lat out where a: "auth_server w1 (auth_count w1) = (lat, out)"
    by (cases "auth_server w1 (auth_count w1)")
  let ?w3 = "w1\<lparr>clock := clock w1 + int lat, calls := calls w1 @ [(clock w1, AuthToken)]\<rparr>"
  have f: "fetch_auth w1 = (out, ?w3)"
    using a by (simp add: fetch_auth_def)
  from assms have n: "(hasToken c \<and> clock w < tokenExpiry c) = False" by simp
  have "calls (snd (snd (getAccessToken cfg c w))) = calls ?w3"
    unfolding getAccessToken_def n
    by (simp add: e f Let_def authFailed_def split: auth_outcome.splits option.splits)
  then show ?thesis
    using k by (simp add: auth_count_def)
qed

text \<open>
  Claim C7, as amended.  On a 401 answer \<open>request\<close> clears the cached token and its
  expiry, so that the next \<open>getAccessToken\<close> makes an authentication exchange.  It then
  retries when the retry count of the call is below 2, and otherwise throws the API error
  of status 401.  The retry count is the one counter of the call, advanced by every retry
  of any kind; a call therefore makes at most two retries for a 401.
\<close>

theorem unauthorized_retry_by_retry_count:
  "(auth_always_ok w \<and> api_script w = (lat, Response resp) # rest \<and> status resp = 401 \<longrightarrow>
      (\<exists>c1 w1. accessToken c1 = None \<and> tokenExpiry c1 = 0 \<and> api_script w1 = rest \<and>
         auth_count (snd (snd (getAccessToken cfg c1 w1))) = auth_count w1 + 1 \<and>
         (if r < 2 then request cfg ep r c w = request cfg ep (r + 1) c1 w1
          else request cfg ep r c w = Some (Inl (ApiError ''API Error'' (Some 401)), c1, w1)))) \<and>
   (request cfg ep 0 c w = Some (res, c', w') \<longrightarrow> refreshes w' \<le> refreshes w + 2)"
proof (intro conjI impI)
  assume h: "auth_always_ok w \<and> api_script w = (lat, Response resp) # rest \<and> status resp = 401"
  from attempt_step [of w lat "Response resp" rest cfg ep r c] h
  obtain c2 w4 where s: "attempt cfg ep r c w = Some (onOutcome cfg ep r (Response resp) c2 w4)"
    "api_script w4 = rest" "auth_server w4 = auth_server w"
    by auto
  let ?c1 = "c2\<lparr>accessToken := None, tokenExpiry := 0\<rparr>"
  let ?w1 = "if r < 2 then logger WARN TokenExpiredRefreshing w4 else w4"
  from h s have a: "attempt cfg ep r c w =
      Some (if r < 2 then Retry else Done (Inl (ApiError ''API Error'' (Some 401))), ?c1, ?w1)"
    by (simp add: onOutcome_def onResponse_401)
  have "\<not> (hasToken ?c1 \<and> clock ?w1 < tokenExpiry ?c1)"
    by (simp add: hasToken_def)
  from getAccessToken_miss_exchanges [OF this]
  have g: "auth_count (snd (snd (getAccessToken cfg ?c1 ?w1))) = auth_count ?w1 + 1" .
  show "\<exists>c1 w1. accessToken c1 = None \<and> tokenExpiry c1 = 0 \<and> api_script w1 = rest \<and>
         auth_count (snd (snd (getAccessToken cfg c1 w1))) = auth_count w1 + 1 \<and>
         (if r < 2 then request cfg ep r c w = request cfg ep (r + 1) c1 w1
          else request cfg ep r c w = Some (Inl (ApiError ''API Error'' (Some 401)), c1, w1))"
    apply (rule exI [of _ ?c1])
    apply (rule exI [of _ ?w1])
    using a s(2) g by (auto simp: request_retry request_done)
next
  assume "request cfg ep 0 c w = Some (res, c', w')"
  from request_refreshes [OF this] show "refreshes w' \<le> refreshes w + 2" by simp
qed


theorem unauthorized_retry_by_retry_count_witness:
  "auth_always_ok (demo_world [(30, status_response 401 None), (80, ok_response (JNum 7))]) \<and>
   (\<exists>c1 w1. accessToken c1 = None \<and> tokenExpiry c1 = 0 \<and>
      api_script w1 = [(80, ok_response (JNum 7))] \<and>
      request demo_config (Campaigns 1 10) 0 (new_client demo_config)
        (demo_world [(30, status_response 401 None), (80, ok_response (JNum 7))]) =
      request demo_config (Campaigns 1 10) 1 c1 w1) \<and>
   (case request demo_config (Campaigns 1 10) 0 (new_client demo_config)
           (demo_world [(30, status_response 401 None), (80, ok_response (JNum 7))]) of
      None \<Rightarrow> False
    | Some (r, c', w') \<Rightarrow> r = Inr (JNum 7) \<and> refreshes w' \<le> 2)"
proof -
  let ?w = "demo_world [(30, status_response 401 None), (80, ok_response (JNum 7))]"
  let ?R = "\<lparr>status = 401, retryAfter = None, body = None\<rparr>"
  have h: "auth_always_ok ?w \<and> api_script ?w = (30, Response ?R) # [(80, ok_response (JNum 7))] \<and>
           status ?R = 401"
    using auth_always_ok_demo [of "[(30, status_response 401 None), (80, ok_response (JNum 7))]"]
    by (simp add: demo_world_def status_response_def)
  note t1 = unauthorized_retry_by_retry_count [where cfg = demo_config and ep = "Campaigns 1 10"
      and c = "new_client demo_config" and r = 0, THEN conjunct1, THEN mp, OF h]
  have "\<exists>c' w'. request demo_config (Campaigns 1 10) 0 (new_client demo_config) ?w =
          Some (Inr (JNum 7), c', w')"
    by (simp add: eval_defs status_response_def)
  then obtain c' w' where
    q: "request demo_config (Campaigns 1 10) 0 (new_client demo_config) ?w = Some (Inr (JNum 7), c', w')"
    by (elim exE)
  note t2 = unauthorized_retry_by_retry_count [where cfg = demo_config and ep = "Campaigns 1 10"
      and c = "new_client demo_config" and w = ?w, THEN conjunct2, THEN mp, OF q]
  have z: "refreshes ?w = 0"
    by (simp add: refreshes_def demo_world_def)
  from t1 t2 q z show ?thesis
    by auto
qed

text \<open>
  Claim C7 as stated fails: it has the 401 retried until two retries for a 401 have been
  made.  A call answered 429, 429, 401 has made none when the 401 arrives, and still the 401
  is not retried: the call throws the error of status 401, the 200 that the script holds
  next is never asked for, and no retry for a 401 is logged.
\<close>

theorem unauthorized_after_429s_counterexample:
  "map_option fst (request demo_config (Campaigns 1 10) 0 (new_client demo_config)
      (demo_world script_401)) = Some (Inl (ApiError ''API Error'' (Some 401))) \<and>
   map_option (api_script \<circ> snd \<circ> snd) (request demo_config (Campaigns 1 10) 0
      (new_client demo_config) (demo_world script_401)) = Some [(80, ok_response (JNum 7))] \<and>
   map_option (refreshes \<circ> snd \<circ> snd) (request demo_config (Campaigns 1 10) 0
      (new_client demo_config) (demo_world script_401)) = Some 0"
  by (simp add: eval_defs script_401_def status_response_def refreshes_def)

section \<open>Timeouts and network errors\<close>

text \<open>
  Claim C5 at a timeout.  The first request is aborted after 10 s and the call retries:
  the retry starts at the very moment of the abort, with no backoff.  After a network
  failure or a 503 that took as long, the retry starts 1000 ms (\<open>1000 * 2^0\<close>) later.
\<close>

theorem timeout_retry_without_backoff:
  "map_option fst (request demo_config (Campaigns 1 10) 0 (new_client demo_config)
      (demo_world [(10000, Aborted), (80, ok_response (JNum 7))])) = Some (Inr (JNum 7)) \<and>
   map_option (map fst \<circ> calls \<circ> snd \<circ> snd) (request demo_config (Campaigns 1 10) 0
      (new_client demo_config) (demo_world [(10000, Aborted), (80, ok_response (JNum 7))])) =
     Some [1700000000000, 1700000006500, 1700000016500] \<and>
   map_option (map fst \<circ> calls \<circ> snd \<circ> snd) (request demo_config (Campaigns 1 10) 0
      (new_client demo_config) (demo_world [(10000, NetworkFailure), (80, ok_response (JNum 7))])) =
     Some [1700000000000, 1700000006500, 1700000017500] \<and>
   map_option (map fst \<circ> calls \<circ> snd \<circ> snd) (request demo_config (Campaigns 1 10) 0
      (new_client demo_config)
      (demo_world [(10000, status_response 503 None), (80, ok_response (JNum 7))])) =
     Some [1700000000000, 1700000006500, 1700000017500]"
  by (simp add: eval_defs status_response_def)

section \<open>Pagination\<close>

lemma page_requests_upt: "page_requests n k = map (\<lambda>i. Campaigns i 10) [n..<n + k]"
  by (induction n k rule: page_requests.induct) (simp_all add: upt_conv_Cons del: upt_Suc)

lemma onResponse_fields:
  "onResponse cfg ep r resp c w = (res, c', w') \<Longrightarrow>
     auth_server w' = auth_server w \<and> requested w' = requested w"
  unfolding onResponse_def onError_def finalFailure_def Let_def
  by (auto split: if_splits option.splits)

lemma request_first_ok:
  assumes "auth_always_ok w" "api_script w = (lat, Response resp) # rest" "ok (status resp)"
    "body resp = Some v" "ep \<noteq> AuthToken"
  shows "\<exists>c' w'. request cfg ep r c w = Some (Inr v, c', w') \<and> api_script w' = rest \<and>
     auth_always_ok w' \<and> requested w' = requested w @ [ep] \<and> warnings w' = warnings w"
proof -
  from attempt_step [OF assms(1,2), of cfg ep r c] assms(5)
  obtain c2 w4 where s: "attempt cfg ep r c w = Some (onOutcome cfg ep r (Response resp) c2 w4)"
    "api_script w4 = rest" "auth_server w4 = auth_server w" "warnings w4 = warnings w"
    "requested w4 = requested w @ [ep]"
    by auto
  from assms(3,4) have "onResponse cfg ep r resp c2 w4 = (Done (Inr v), c2, w4)"
    by (rule onResponse_ok)
  with s(1) have "request cfg ep r c w = Some (Inr v, c2, w4)"
    by (simp add: onOutcome_def request_done)
  moreover have "auth_always_ok w4"
    using assms(1) s(3) by (simp add: auth_always_ok_def)
  ultimately show ?thesis using s by blast
qed

lemma page_body_props:
  "truthy (Some (page_body n recs hasMore))"
  "getprop (Some (page_body n recs hasMore)) ''data'' = Inr (Some (JArr recs))"
  "\<exists>p. getprop (Some (page_body n recs hasMore)) ''pagination'' = Inr (Some p) \<and>
       getprop (Some p) ''has_more'' = Inr (Some (JBool hasMore))"
  by (simp_all add: page_body_def)

lemma fetchLoop_page:
  assumes "auth_always_ok w" "api_script w = (lat, ok_response (page_body n recs hasMore)) # rest"
  shows "\<exists>c1 w1. api_script w1 = rest \<and> auth_always_ok w1 \<and>
     requested w1 = requested w @ [Campaigns n 10] \<and>
     fetchLoop cfg acc n c w =
       (if hasMore then fetchLoop cfg (acc @ recs) (n + 1) c1 w1 else Some (Inr (acc @ recs), c1, w1))"
proof -
  let ?w0 = "logger INFO (FetchingPage n) w"
  have "auth_always_ok ?w0" "api_script ?w0 =
      (lat, Response \<lparr>status = 200, retryAfter = None, body = Some (page_body n recs hasMore)\<rparr>) # rest"
    using assms by (simp_all add: auth_always_ok_def ok_response_def)
  from request_first_ok [OF this, of "page_body n recs hasMore" "Campaigns n 10" cfg 0 c]
  obtain c1 w1 where q: "request cfg (Campaigns n 10) 0 c ?w0 = Some (Inr (page_body n recs hasMore), c1, w1)"
    "api_script w1 = rest" "auth_always_ok w1" "requested w1 = requested w @ [Campaigns n 10]"
    by (auto simp: ok_def)
  from page_body_props(3) [of n recs hasMore] obtain p where
    p: "getprop (Some (page_body n recs hasMore)) ''pagination'' = Inr (Some p)"
       "getprop (Some p) ''has_more'' = Inr (Some (JBool hasMore))"
    by blast
  have "fetchLoop cfg acc n c w =
       (if hasMore then fetchLoop cfg (acc @ recs) (n + 1) c1 w1 else Some (Inr (acc @ recs), c1, w1))"
    by (subst fetchLoop.simps) (simp add: getCampaigns_def q(1) page_body_props(1,2) p)
  with q show ?thesis by blast
qed

lemma fetchLoop_pages:
  "ps \<noteq> [] \<Longrightarrow> auth_always_ok w \<Longrightarrow> api_script w = page_script n ps @ rest \<Longrightarrow>
     \<exists>c' w'. fetchLoop cfg acc n c w = Some (Inr (acc @ concat (map snd ps)), c', w') \<and>
       api_script w' = rest \<and> auth_always_ok w' \<and>
       requested w' = requested w @ page_requests n (length ps)"
proof (induction ps arbitrary: n acc c w)
  case Nil
  then show ?case by simp
next
  case (Cons p ps)
  obtain lat recs where p: "p = (lat, recs)" by (cases p)
  from Cons.prems(3) p have s: "api_script w =
      (lat, ok_response (page_body n recs (ps \<noteq> []))) # (page_script (Suc n) ps @ rest)"
    by simp
  from fetchLoop_page [OF Cons.prems(2) s, of cfg acc c]
  obtain c1 w1 where q: "api_script w1 = page_script (Suc n) ps @ rest" "auth_always_ok w1"
    "requested w1 = requested w @ [Campaigns n 10]"
    "fetchLoop cfg acc n c w =
       (if ps \<noteq> [] then fetchLoop cfg (acc @ recs) (n + 1) c1 w1
        else Some (Inr (acc @ recs), c1, w1))"
    by blast
  show ?case
  proof (cases "ps = []")
    case True
    with q p show ?thesis by simp
  next
    case False
    from Cons.IH [OF False q(2), where n = "Suc n" and acc = "acc @ recs" and c = c1] q(1)
    obtain c' w' where
      "fetchLoop cfg (acc @ recs) (Suc n) c1 w1 =
         Some (Inr ((acc @ recs) @ concat (map snd ps)), c', w')"
      "api_script w' = rest" "auth_always_ok w'"
      "requested w' = requested w1 @ page_requests (Suc n) (length ps)"
      by blast
    with q False p show ?thesis
      by simp
  qed
qed

text \<open>
  Claim C2.  When authentication succeeds and the server answers the requests with the
  pages \<open>1, \<dots>, P\<close> (\<open>P \<ge> 1\<close>), each a 200 whose body carries the records of the page
  and \<open>has_more\<close>, false on the last page only, \<open>fetchAllCampaigns\<close> returns the records of
  all pages concatenated in page order (each record once, in the order of its page), and
  the requests it has issued are those for the pages \<open>1, \<dots>, P\<close>, each once and in order.
\<close>

theorem fetchAllCampaigns_complete:
  assumes "auth_always_ok w" "pages \<noteq> []" "api_script w = page_script 1 pages @ rest"
  shows "\<exists>c' w'. fetchAllCampaigns cfg c w = Some (Inr (concat (map snd pages)), c', w') \<and>
     api_script w' = rest \<and>
     requested w' = requested w @ page_requests 1 (length pages)"
  using fetchLoop_pages [OF assms(2,1,3), of cfg "[]" c]
  by (auto simp: fetchAllCampaigns_def)

theorem fetchAllCampaigns_complete_witness:
  "auth_always_ok (demo_world (page_script 1 demo_pages)) \<and> demo_pages \<noteq> [] \<and>
   (case fetchAllCampaigns demo_config (new_client demo_config)
           (demo_world (page_script 1 demo_pages)) of
      None \<Rightarrow> False
    | Some (r, c', w') \<Rightarrow>
        r = Inr (concat (map snd demo_pages)) \<and> api_script w' = [] \<and>
        requested w' = [Campaigns 1 10, Campaigns 2 10, Campaigns 3 10])"
proof -
  have p: "demo_pages \<noteq> []"
    by (simp add: demo_pages_def)
  have s: "api_script (demo_world (page_script 1 demo_pages)) = page_script 1 demo_pages @ []"
    by (simp add: demo_world_def)
  have z: "requested (demo_world s) = []" for s
    by (simp add: requested_def demo_world_def)
  have l: "page_requests (Suc 0) (length demo_pages) =
             [Campaigns (Suc 0) 10, Campaigns 2 10, Campaigns 3 10]"
    by (simp add: demo_pages_def numeral_3_eq_3 numeral_2_eq_2)
  from fetchAllCampaigns_complete [OF auth_always_ok_demo p s, of demo_config
      "new_client demo_config"]
  show ?thesis using p by (auto simp: z l)
qed

lemma fetchAllCampaigns_demo_run:
  "map_option fst (fetchAllCampaigns demo_config (new_client demo_config)
      (demo_world (page_script 1 demo_pages))) = Some (Inr (concat (map snd demo_pages)))"
  by (simp add: fetchAllCampaigns_def fetchLoop.simps eval_defs demo_pages_def page_body_def)


lemma connect_fields:
  "connect cfg d w = (r, d', w') \<Longrightarrow>
     api_script w' = api_script w \<and> auth_server w' = auth_server w"
  by (auto simp: connect_def Let_def split: if_splits)

lemma fetchLoop_first:
  assumes "auth_always_ok w" "api_script w = (lat, Response resp) # rest" "ok (status resp)"
    "body resp = Some (JObj kvs)"
  shows "(map_of kvs ''data'' = None \<longrightarrow>
            (\<exists>c' w'. fetchAllCampaigns cfg c w = Some (Inr [], c', w') \<and>
               (WARN, UnexpectedResponseFormat (Some (JObj kvs))) \<in> set (logs w'))) \<and>
         (map_of kvs ''data'' = Some d \<and> truthy (Some d) \<and> map_of kvs ''pagination'' = None \<longrightarrow>
            (\<exists>c' w'. fetchAllCampaigns cfg c w = Some (Inl TypeError, c', w')))"
proof -
  let ?w0 = "logger INFO (FetchingPage 1) w"
  have "auth_always_ok ?w0" "api_script ?w0 = (lat, Response resp) # rest"
    using assms by (simp_all add: auth_always_ok_def)
  from request_first_ok [OF this assms(3,4), of "Campaigns 1 10" cfg 0 c]
  obtain c1 w1 where q: "request cfg (Campaigns 1 10) 0 c ?w0 = Some (Inr (JObj kvs), c1, w1)"
    by auto
  have n: "fetchLoop cfg [] 1 c w =
      Some (Inr [], c1, logger WARN (UnexpectedResponseFormat (Some (JObj kvs))) w1)"
    if "map_of kvs ''data'' = None"
    using that by (subst fetchLoop.simps) (simp add: getCampaigns_def q [unfolded One_nat_def])
  have t: "fetchLoop cfg [] 1 c w = Some (Inl TypeError, c1, w1)"
    if "map_of kvs ''data'' = Some d" "truthy (Some d)" "map_of kvs ''pagination'' = None"
    using that by (subst fetchLoop.simps) (simp add: getCampaigns_def q [unfolded One_nat_def])
  show ?thesis
    using n t by (auto simp: fetchAllCampaigns_def logger_def)
qed

text \<open>
  Claim C10.  When the first answer is a 2xx whose body is an object without \<^verbatim>\<open>data\<close>,
  \<open>fetchAllCampaigns\<close> logs the warning and returns what it has (nothing).  When the body
  has a truthy \<^verbatim>\<open>data\<close> but no \<^verbatim>\<open>pagination\<close>, reading \<^verbatim>\<open>response.pagination.has_more\<close> throws a
  TypeError: \<open>fetchAllCampaigns\<close> throws it, and the run ends with exit code 1.
\<close>

theorem missing_pagination_is_fatal:
  assumes "auth_always_ok w" "api_script w = (lat, Response resp) # rest" "ok (status resp)"
    "body resp = Some (JObj kvs)"
  shows "(map_of kvs ''data'' = None \<longrightarrow>
            (\<exists>c' w'. fetchAllCampaigns cfg c w = Some (Inr [], c', w') \<and>
               (WARN, UnexpectedResponseFormat (Some (JObj kvs))) \<in> set (logs w'))) \<and>
         (map_of kvs ''data'' = Some d \<and> truthy (Some d) \<and> map_of kvs ''pagination'' = None \<longrightarrow>
            (\<exists>c' w'. fetchAllCampaigns cfg c w = Some (Inl TypeError, c', w')) \<and>
            (\<exists>w'. main cfg w = Some (1, w')))"
proof (intro conjI impI)
  assume "map_of kvs ''data'' = None"
  with fetchLoop_first [OF assms, where cfg = cfg and c = c]
  show "\<exists>c' w'. fetchAllCampaigns cfg c w = Some (Inr [], c', w') \<and>
               (WARN, UnexpectedResponseFormat (Some (JObj kvs))) \<in> set (logs w')"
    by blast
next
  assume h: "map_of kvs ''data'' = Some d \<and> truthy (Some d) \<and> map_of kvs ''pagination'' = None"
  with fetchLoop_first [OF assms, where cfg = cfg and c = c and d = d]
  show "\<exists>c' w'. fetchAllCampaigns cfg c w = Some (Inl TypeError, c', w')"
    by blast
next
  assume h: "map_of kvs ''data'' = Some d \<and> truthy (Some d) \<and> map_of kvs ''pagination'' = None"
  let ?w0 = "logger INFO StartingSync w"
  obtain r d1 w1 where cn: "connect cfg \<lparr>pool = False\<rparr> ?w0 = (r, d1, w1)"
    by (cases "connect cfg \<lparr>pool = False\<rparr> ?w0")
  from connect_fields [OF cn] assms(1,2) have k: "auth_always_ok w1"
    "api_script w1 = (lat, Response resp) # rest"
    by (simp_all add: auth_always_ok_def)
  from fetchLoop_first [OF k assms(3,4), where cfg = cfg and c = "new_client cfg" and d = d] h
  obtain c' w' where "fetchAllCampaigns cfg (new_client cfg) w1 = Some (Inl TypeError, c', w')"
    by blast
  then show "\<exists>w'. main cfg w = Some (1, w')"
    using cn by (cases r) (simp_all add: main_def start_def startBody_def)
qed


theorem missing_pagination_is_fatal_witness:
  "auth_always_ok (demo_world [(80, ok_response (JObj no_pagination))]) \<and> ok 200 \<and>
   map_of no_data ''data'' = None \<and>
   map_option fst (fetchAllCampaigns demo_config (new_client demo_config)
      (demo_world [(80, ok_response (JObj no_data))])) = Some (Inr []) \<and>
   truthy (map_of no_pagination ''data'') \<and> map_of no_pagination ''pagination'' = None \<and>
   map_option fst (fetchAllCampaigns demo_config (new_client demo_config)
      (demo_world [(80, ok_response (JObj no_pagination))])) = Some (Inl TypeError) \<and>
   map_option fst (main demo_config (demo_world [(80, ok_response (JObj no_pagination))])) = Some 1"
proof -
  let ?R = "\<lambda>kvs. \<lparr>status = 200, retryAfter = None, body = Some (JObj kvs)\<rparr>"
  have s: "api_script (demo_world [(80, ok_response (JObj kvs))]) = (80, Response (?R kvs)) # []"
    for kvs
    by (simp add: demo_world_def ok_response_def)
  have o: "ok (status (?R kvs))" "body (?R kvs) = Some (JObj kvs)" for kvs
    by (simp_all add: ok_def)
  have d: "map_of no_data ''data'' = None"
    by (simp add: no_data_def)
  have p: "map_of no_pagination ''data'' =
             Some (JArr [JObj [(''id'', JStr ''c1''), (''name'', JStr ''Campaign 1'')]]) \<and>
           truthy (Some (JArr [JObj [(''id'', JStr ''c1''), (''name'', JStr ''Campaign 1'')]])) \<and>
           map_of no_pagination ''pagination'' = None"
    by (simp add: no_pagination_def)
  note t1 = missing_pagination_is_fatal [OF auth_always_ok_demo s o, where cfg = demo_config
      and c = "new_client demo_config", THEN conjunct1, THEN mp, OF d]
  note t2 = missing_pagination_is_fatal [OF auth_always_ok_demo s o, where cfg = demo_config
      and c = "new_client demo_config", THEN conjunct2, THEN mp, OF p]
  from t1 t2 d p show ?thesis
    by (auto simp: ok_def)
qed

section \<open>The run over the campaigns\<close>

lemma onError_retry_bound:
  "onError cfg ep r e c w = (Retry, c', w') \<Longrightarrow> r < retryCeiling cfg"
  unfolding onError_def finalFailure_def Let_def retryCeiling_def
  by (auto split: if_splits)

lemma onResponse_retry_bound:
  "onResponse cfg ep r resp c w = (Retry, c', w') \<Longrightarrow>
     status resp = 429 \<or> r < retryCeiling cfg"
  unfolding onResponse_def Let_def
  by (auto split: if_splits option.splits dest: onError_retry_bound simp: retryCeiling_def)

lemma attempt_cases:
  assumes "attempt cfg ep r c w = Some (ar, c1, w1)"
  shows "(api_script w1 = api_script w \<and> ar \<noteq> Retry) \<or>
         (\<exists>h. api_script w = h # api_script w1 \<and>
              (ar = Retry \<longrightarrow> is429 h \<or> r < retryCeiling cfg))"
proof -
  obtain t c0 w0 where g: "getAccessToken cfg c w = (t, c0, w0)"
    by (cases "getAccessToken cfg c w")
  note g1 = getAccessToken_script [OF g]
  show ?thesis
  proof (cases t)
    case (Inl e)
    with assms g g1 show ?thesis
      by (auto simp: attempt_def finalFailure_def split: if_splits)
  next
    case (Inr token)
    obtain c2 w2 where e: "enforceRateLimit c0 w0 = (c2, w2)"
      by (cases "enforceRateLimit c0 w0")
    note e1 = enforceRateLimit_script [OF e]
    from assms g Inr e obtain lat out rest where
      s: "api_script w2 = (lat, out) # rest"
      by (cases "api_script w2") (auto simp: attempt_def Let_def)
    let ?w4 = "(logger DEBUG (Requesting ep) w2)\<lparr>clock := clock w2 + int lat, api_script := rest,
                   calls := calls w2 @ [(clock w2, ep)]\<rparr>"
    from assms g Inr e s
    have o: "onOutcome cfg ep r out c2 ?w4 = (ar, c1, w1)"
      by (cases out) (auto simp: attempt_def Let_def logger_def onOutcome_def)
    then have "api_script w1 = rest"
      by (cases out) (auto simp: onOutcome_def dest: onError_script onResponse_script)
    moreover from o have "ar = Retry \<longrightarrow> is429 (lat, out) \<or> r < retryCeiling cfg"
      by (cases out) (auto simp: onOutcome_def dest: onError_retry_bound onResponse_retry_bound)
    ultimately show ?thesis
      using s g1 e1 by auto
  qed
qed

lemma attempt_total: "api_script w \<noteq> [] \<Longrightarrow> attempt cfg ep r c w \<noteq> None"
proof -
  assume n: "api_script w \<noteq> []"
  obtain t c0 w0 where g: "getAccessToken cfg c w = (t, c0, w0)"
    by (cases "getAccessToken cfg c w")
  obtain c2 w2 where e: "enforceRateLimit c0 w0 = (c2, w2)"
    by (cases "enforceRateLimit c0 w0")
  from getAccessToken_script [OF g] enforceRateLimit_script [OF e] n
  have "api_script w2 \<noteq> []" by simp
  then obtain lat out rest where s: "api_script w2 = (lat, out) # rest"
    by (cases "api_script w2") auto
  show ?thesis
  proof (cases t)
    case (Inl x)
    then show ?thesis by (simp add: attempt_def g)
  next
    case (Inr tok)
    then show ?thesis
      by (cases out) (simp_all add: attempt_def g e s Let_def)
  qed
qed

lemma request_total:
  "retryCeiling cfg - r < non429 (api_script w) \<Longrightarrow>
     \<exists>res c' w'. request cfg ep r c w = Some (res, c', w') \<and>
        non429 (api_script w) \<le> non429 (api_script w') + (retryCeiling cfg - r) + 1"
proof (induction cfg ep r c w rule: request.induct)
  case (1 cfg ep retryCount c w)
  from "1.prems" have "api_script w \<noteq> []"
    by (auto simp: non429_def)
  from attempt_total [OF this, of cfg ep retryCount c]
  obtain ar c1 w1 where a: "attempt cfg ep retryCount c w = Some (ar, c1, w1)"
    by (cases "attempt cfg ep retryCount c w") auto
  note ac = attempt_cases [OF a]
  show ?case
  proof (cases ar)
    case (Done x)
    with a have "request cfg ep retryCount c w = Some (x, c1, w1)"
      by (simp add: request_done)
    moreover from ac have
      "non429 (api_script w) \<le> non429 (api_script w1) + (retryCeiling cfg - retryCount) + 1"
      by (auto simp: non429_def)
    ultimately show ?thesis by blast
  next
    case Retry
    with a have q: "request cfg ep retryCount c w = request cfg ep (retryCount + 1) c1 w1"
      by (simp add: request_retry)
    from ac Retry obtain h where h: "api_script w = h # api_script w1"
      "is429 h \<or> retryCount < retryCeiling cfg"
      by auto
    show ?thesis
    proof (cases "is429 h")
      case True
      with h have n: "non429 (api_script w1) = non429 (api_script w)"
        by (simp add: non429_def)
      with "1.prems" have "retryCeiling cfg - (retryCount + 1) < non429 (api_script w1)"
        by simp
      from "1.IH" [OF a refl Retry refl this] n q show ?thesis
        by auto
    next
      case False
      with h have n: "non429 (api_script w) = non429 (api_script w1) + 1"
        "retryCount < retryCeiling cfg"
        by (simp_all add: non429_def)
      with "1.prems" have "retryCeiling cfg - (retryCount + 1) < non429 (api_script w1)"
        by simp
      from "1.IH" [OF a refl Retry refl this] n q show ?thesis
        by auto
    qed
  qed
qed


lemma upsertCampaign_script:
  "upsertCampaign cfg campaign d w = (r, w') \<Longrightarrow> api_script w' = api_script w"
  by (auto simp: upsertCampaign_def Let_def logger_def split: if_splits sum.splits prod.splits)

lemma syncOne_total:
  assumes "retryCeiling cfg < non429 (api_script w)"
  shows "\<exists>b c1 w1. syncOne cfg campaign name cid c d w = Some (b, c1, w1) \<and>
     non429 (api_script w) \<le> non429 (api_script w1) + retryCeiling cfg + 1"
proof -
  from assms have "retryCeiling cfg - 0 < non429 (api_script w)" by simp
  from request_total [OF this, of "CampaignSync cid" c]
  obtain res c1 w1 where q: "syncCampaign cfg cid c w = Some (res, c1, w1)"
    "non429 (api_script w) \<le> non429 (api_script w1) + retryCeiling cfg + 1"
    by (auto simp: syncCampaign_def)
  show ?thesis
  proof (cases res)
    case (Inl e)
    with q show ?thesis by (auto simp: syncOne_def)
  next
    case (Inr v)
    obtain r w2 where u: "upsertCampaign cfg campaign d w1 = (r, w2)"
      by (cases "upsertCampaign cfg campaign d w1")
    from upsertCampaign_script [OF u] q Inr u show ?thesis
      by (cases r) (auto simp: syncOne_def)
  qed
qed

lemma getprop_not_null: "campaign \<noteq> JNull \<Longrightarrow> \<exists>v. getprop (Some campaign) k = Inr v"
  by (cases campaign) simp_all

lemma processCampaigns_total:
  "JNull \<notin> set campaigns \<Longrightarrow>
   (retryCeiling cfg + 1) * length campaigns \<le> non429 (api_script w) \<Longrightarrow>
     \<exists>s' f' c' w'. processCampaigns cfg campaigns i len s f c d w = Some (Inr (s', f'), c', w') \<and>
        s' + f' = s + f + length campaigns"
proof (induction campaigns arbitrary: i s f c w)
  case Nil
  then show ?case by simp
next
  case (Cons campaign rest)
  from Cons.prems(1) have nn: "campaign \<noteq> JNull" by auto
  from getprop_not_null [OF nn] obtain name cid where
    p: "getprop (Some campaign) ''name'' = Inr name" "getprop (Some campaign) ''id'' = Inr cid"
    by blast
  let ?w0 = "logger INFO (ProcessingCampaign (i + 1) len name cid) w"
  from Cons.prems(2) have "retryCeiling cfg < non429 (api_script ?w0)"
    by simp
  from syncOne_total [OF this, of campaign name cid c d]
  obtain b c1 w1 where q: "syncOne cfg campaign name cid c d ?w0 = Some (b, c1, w1)"
    "non429 (api_script ?w0) \<le> non429 (api_script w1) + retryCeiling cfg + 1"
    by blast
  from q(2) Cons.prems(2) have e: "(retryCeiling cfg + 1) * length rest \<le> non429 (api_script w1)"
    by simp
  from Cons.prems(1) have r: "JNull \<notin> set rest" by simp
  show ?case
  proof (cases b)
    case True
    from Cons.IH [OF r e, of "i + 1" "s + 1" f c1] True p q(1)
    show ?thesis by auto
  next
    case False
    from Cons.IH [OF r e, of "i + 1" s "f + 1" c1] False p q(1)
    show ?thesis by auto
  qed
qed

lemma logs_close: "set (logs w) \<subseteq> set (logs (close d w))"
  by (auto simp: close_def logger_def)

text \<open>
  Claim C9 at a record that is \<^verbatim>\<open>null\<close>.  The first page holds the records c1, \<^verbatim>\<open>null\<close>, c3 and
  is the last page; the database is connected and every request and write would succeed.
  The loop processes c1, then the line that logs the next campaign reads
  \<^verbatim>\<open>campaign.name\<close> outside the \<^verbatim>\<open>try\<close> block and throws a TypeError: the batch is aborted, c3
  is never requested or written, no report is logged, the error is logged as fatal and the
  exit code is 1.
\<close>

theorem null_record_aborts_batch:
  "map_option fst (main demo_config null_record_world) = Some 1 \<and>
   map_option (reported \<circ> snd) (main demo_config null_record_world) = Some False \<and>
   map_option (requested \<circ> snd) (main demo_config null_record_world) =
     Some [Campaigns 1 10, CampaignSync (Some (JStr ''c1''))] \<and>
   map_option (rows \<circ> snd) (main demo_config null_record_world) = Some [demo_records ! 0] \<and>
   map_option (filter (\<lambda>e. fst e = ERROR) \<circ> logs \<circ> snd) (main demo_config null_record_world) =
     Some [(ERROR, FatalError TypeError), (ERROR, FinishedWithErrors)] \<and>
   map_option fst (fetchAllCampaigns demo_config (new_client demo_config)
      (snd (snd (connect demo_config \<lparr>pool = False\<rparr> (logger INFO StartingSync null_record_world))))) =
     Some (Inr [demo_records ! 0, JNull, demo_records ! 2])"
  by (simp add: run_defs eval_defs null_record_world_def reported_def requested_def
      numeral_eq_Suc)

lemma demo_run_reported:
  "map_option (reported \<circ> snd) (main demo_config demo_run_world) = Some True"
  by (simp add: run_defs eval_defs reported_def numeral_eq_Suc)

text \<open>
  For records other than \<^verbatim>\<open>null\<close> the isolation holds.  In the loop over the fetched
  campaigns, a campaign whose remote sync throws, or whose upsert throws, adds one to
  \<open>failureCount\<close> and the loop goes on with the remaining campaigns.  When the database
  is connected and the campaigns are fetched (none of them \<^verbatim>\<open>null\<close>, and the script long
  enough for every campaign's call to end), the run completes: it reports
  \<open>successCount\<close>, \<open>failureCount\<close> and the total with
  \<open>successCount + failureCount = total\<close>, and the exit code is 0.
\<close>

lemma per_record_failures_are_counted:
  "(getprop (Some campaign) ''name'' = Inr name \<and> getprop (Some campaign) ''id'' = Inr cid \<and>
    syncCampaign cfg cid c (logger INFO (ProcessingCampaign (i + 1) len name cid) w) =
      Some (Inl e, c1, w1) \<longrightarrow>
      processCampaigns cfg (campaign # rest) i len s f c d w =
      processCampaigns cfg rest (i + 1) len s (f + 1) c1 d (logger ERROR (FailedToSync cid e) w1)) \<and>
   (getprop (Some campaign) ''name'' = Inr name \<and> getprop (Some campaign) ''id'' = Inr cid \<and>
    syncCampaign cfg cid c (logger INFO (ProcessingCampaign (i + 1) len name cid) w) =
      Some (Inr v, c1, w1) \<and> upsertCampaign cfg campaign d w1 = (Inl e, w2) \<longrightarrow>
      processCampaigns cfg (campaign # rest) i len s f c d w =
      processCampaigns cfg rest (i + 1) len s (f + 1) c1 d (logger ERROR (FailedToSync cid e) w2)) \<and>
   (connect cfg \<lparr>pool = False\<rparr> (logger INFO StartingSync w) = (Inr (), d1, w3) \<and>
    fetchAllCampaigns cfg (new_client cfg) w3 = Some (Inr campaigns, c4, w4) \<and>
    JNull \<notin> set campaigns \<and>
    (retryCeiling cfg + 1) * length campaigns \<le> non429 (api_script w4) \<longrightarrow>
      (\<exists>w' successCount failureCount. main cfg w = Some (0, w') \<and>
         (INFO, SyncCompleted successCount failureCount (length campaigns)) \<in> set (logs w') \<and>
         successCount + failureCount = length campaigns))"
proof (intro conjI impI)
  assume "getprop (Some campaign) ''name'' = Inr name \<and> getprop (Some campaign) ''id'' = Inr cid \<and>
    syncCampaign cfg cid c (logger INFO (ProcessingCampaign (i + 1) len name cid) w) =
      Some (Inl e, c1, w1)"
  then show "processCampaigns cfg (campaign # rest) i len s f c d w =
      processCampaigns cfg rest (i + 1) len s (f + 1) c1 d (logger ERROR (FailedToSync cid e) w1)"
    by (simp add: syncOne_def)
next
  assume "getprop (Some campaign) ''name'' = Inr name \<and> getprop (Some campaign) ''id'' = Inr cid \<and>
    syncCampaign cfg cid c (logger INFO (ProcessingCampaign (i + 1) len name cid) w) =
      Some (Inr v, c1, w1) \<and> upsertCampaign cfg campaign d w1 = (Inl e, w2)"
  then show "processCampaigns cfg (campaign # rest) i len s f c d w =
      processCampaigns cfg rest (i + 1) len s (f + 1) c1 d (logger ERROR (FailedToSync cid e) w2)"
    by (simp add: syncOne_def)
next
  assume h: "connect cfg \<lparr>pool = False\<rparr> (logger INFO StartingSync w) = (Inr (), d1, w3) \<and>
    fetchAllCampaigns cfg (new_client cfg) w3 = Some (Inr campaigns, c4, w4) \<and>
    JNull \<notin> set campaigns \<and>
    (retryCeiling cfg + 1) * length campaigns \<le> non429 (api_script w4)"
  let ?w5 = "logger INFO (FetchedTotal (length campaigns)) w4"
  from h have "JNull \<notin> set campaigns"
    "(retryCeiling cfg + 1) * length campaigns \<le> non429 (api_script ?w5)"
    by simp_all
  from processCampaigns_total [OF this, of 0 "length campaigns" 0 0 c4 d1]
  obtain s' f' c' w' where
    p: "processCampaigns cfg campaigns 0 (length campaigns) 0 0 c4 d1 ?w5 = Some (Inr (s', f'), c', w')"
    "s' + f' = length campaigns"
    by auto
  let ?w6 = "logger INFO (SyncCompleted s' f' (length campaigns)) w'"
  from h p(1) have b: "startBody cfg (new_client cfg) \<lparr>pool = False\<rparr> (logger INFO StartingSync w) =
      Some (Inr (), c', d1, ?w6)"
    by (simp add: startBody_def)
  then have m: "main cfg w = Some (0, logger INFO FinishedSuccessfully (close d1 ?w6))"
    by (simp add: main_def start_def)
  have "(INFO, SyncCompleted s' f' (length campaigns)) \<in> set (logs ?w6)"
    by (simp add: logger_def)
  with logs_close [of ?w6 d1]
  have "(INFO, SyncCompleted s' f' (length campaigns)) \<in>
          set (logs (logger INFO FinishedSuccessfully (close d1 ?w6)))"
    by (auto simp: logger_def)
  with m p(2) show "\<exists>w' successCount failureCount. main cfg w = Some (0, w') \<and>
         (INFO, SyncCompleted successCount failureCount (length campaigns)) \<in> set (logs w') \<and>
         successCount + failureCount = length campaigns"
    by blast
qed


lemma per_record_failures_are_counted_on_demo_run:
  "fst (connect demo_config \<lparr>pool = False\<rparr> (logger INFO StartingSync demo_run_world)) = Inr () \<and>
   JNull \<notin> set demo_records \<and>
   map_option fst (main demo_config demo_run_world) = Some 0 \<and>
   map_option (\<lambda>p. (INFO, SyncCompleted 2 1 3) \<in> set (logs (snd p))) (main demo_config demo_run_world)
     = Some True"
proof -
  let ?w1 = "logger INFO StartingSync demo_run_world"
  let ?w3 = "logger INFO ConnectedToDatabase ?w1"
  have cn: "connect demo_config \<lparr>pool = False\<rparr> ?w1 = (Inr (), \<lparr>pool = True\<rparr>, ?w3)"
    by (simp add: connect_def demo_config_def load_config_def demo_run_world_def demo_world_def
        logger_def)
  have "\<exists>c4 w4. fetchAllCampaigns demo_config (new_client demo_config) ?w3 =
            Some (Inr demo_records, c4, w4) \<and>
          api_script w4 = replicate 12 (90, ok_response (JObj []))"
    by (simp add: run_defs eval_defs)
  then obtain c4 w4 where
    f: "fetchAllCampaigns demo_config (new_client demo_config) ?w3 = Some (Inr demo_records, c4, w4)"
    and a: "api_script w4 = replicate 12 (90, ok_response (JObj []))"
    by (elim exE conjE)
  have nn: "JNull \<notin> set demo_records"
    by (simp add: demo_records_def)
  have n: "(retryCeiling demo_config + 1) * length demo_records \<le> non429 (api_script w4)"
    by (simp add: a retryCeiling_def non429_def demo_config_def load_config_def demo_records_def
        ok_response_def)
  note t = per_record_failures_are_counted [where cfg = demo_config and w = demo_run_world,
      THEN conjunct2, THEN conjunct2, THEN mp, OF conjI [OF cn conjI [OF f conjI [OF nn n]]]]
  then obtain w' where "main demo_config demo_run_world = Some (0, w')"
    by blast
  with cn nn demo_run_counts show ?thesis
    by simp
qed

section \<open>Configuration from the environment\<close>

text \<open>
  Claim C8, as amended.  The API base URL, the credentials, the database connection
  parameters (host, port, name, user, password) and the mock-database toggle are read from
  the environment: a variable set to a non-empty value \<open>v\<close> gives the option the value \<open>v\<close>
  (the port \<open>parseInt v\<close>), and the toggle is on exactly when \<^verbatim>\<open>USE_MOCK_DB\<close> is \<^verbatim>\<open>true\<close>.  The
  minimum request interval, the per-call timeout and the maximum retry count are the
  constants 6500, 10000 and 3 under every environment.
\<close>

theorem config_overridable_options:
  "(v \<noteq> [] \<longrightarrow>
      baseUrl (api (load_config (e(''AD_PLATFORM_API_URL'' \<mapsto> v)))) = v \<and>
      email (auth (api (load_config (e(''API_USERNAME'' \<mapsto> v))))) = v \<and>
      password (auth (api (load_config (e(''API_PASSWORD'' \<mapsto> v))))) = v \<and>
      host (db (load_config (e(''DB_HOST'' \<mapsto> v)))) = v \<and>
      port (db (load_config (e(''DB_PORT'' \<mapsto> v)))) = parseInt v \<and>
      database (db (load_config (e(''DB_NAME'' \<mapsto> v)))) = v \<and>
      user (db (load_config (e(''DB_USER'' \<mapsto> v)))) = v \<and>
      dbPassword (db (load_config (e(''DB_PASSWORD'' \<mapsto> v)))) = v) \<and>
   useMock (db (load_config e)) = (e ''USE_MOCK_DB'' = Some ''true'') \<and>
   minRequestIntervalMs (api (load_config e)) = 6500 \<and>
   timeoutMs (api (load_config e)) = 10000 \<and>
   maxRetries (api (load_config e)) = 3"
  by (simp add: load_config_def env_or_def)

lemma load_config_defaults:
  "load_config Map.empty =
     \<lparr> api = \<lparr> baseUrl = ''http://localhost:3001'',
               auth = \<lparr> email = ''admin@mixoads.com'', password = ''SuperSecret123!'' \<rparr>,
               minRequestIntervalMs = 6500, timeoutMs = 10000, maxRetries = 3 \<rparr>,
       db = \<lparr> host = ''localhost'', port = Some 5432, database = ''mixoads'', user = ''postgres'',
              dbPassword = ''postgres'', useMock = False \<rparr> \<rparr>"
  by (simp add: load_config_def env_or_def parseInt_def isSpace_def digitVal_def Let_def)

lemma load_config_demo_env:
  "load_config demo_env =
     \<lparr> api = \<lparr> baseUrl = ''https://ads.example.com'',
               auth = \<lparr> email = ''sync@example.com'', password = ''s3cret'' \<rparr>,
               minRequestIntervalMs = 6500, timeoutMs = 10000, maxRetries = 3 \<rparr>,
       db = \<lparr> host = ''db.internal'', port = Some 6543, database = ''ads'', user = ''sync'',
              dbPassword = ''pg-s3cret'', useMock = True \<rparr> \<rparr>"
  by (simp add: load_config_def env_or_def demo_env_def parseInt_def isSpace_def digitVal_def
      Let_def)

theorem config_overridable_options_witness:
  "''6543'' \<noteq> [] \<and>
   baseUrl (api (load_config [''AD_PLATFORM_API_URL'' \<mapsto> ''6543''])) \<noteq>
     baseUrl (api (load_config Map.empty)) \<and>
   email (auth (api (load_config [''API_USERNAME'' \<mapsto> ''6543'']))) \<noteq>
     email (auth (api (load_config Map.empty))) \<and>
   password (auth (api (load_config [''API_PASSWORD'' \<mapsto> ''6543'']))) \<noteq>
     password (auth (api (load_config Map.empty))) \<and>
   host (db (load_config [''DB_HOST'' \<mapsto> ''6543''])) \<noteq> host (db (load_config Map.empty)) \<and>
   port (db (load_config [''DB_PORT'' \<mapsto> ''6543''])) \<noteq> port (db (load_config Map.empty)) \<and>
   database (db (load_config [''DB_NAME'' \<mapsto> ''6543''])) \<noteq>
     database (db (load_config Map.empty)) \<and>
   user (db (load_config [''DB_USER'' \<mapsto> ''6543''])) \<noteq> user (db (load_config Map.empty)) \<and>
   dbPassword (db (load_config [''DB_PASSWORD'' \<mapsto> ''6543''])) \<noteq>
     dbPassword (db (load_config Map.empty)) \<and>
   useMock (db (load_config [''USE_MOCK_DB'' \<mapsto> ''true''])) \<noteq>
     useMock (db (load_config Map.empty))"
proof -
  have p: "parseInt ''6543'' = Some 6543"
    by (simp add: parseInt_def isSpace_def digitVal_def Let_def)
  from config_overridable_options [where e = Map.empty and v = "''6543''"]
    config_overridable_options [where e = "[''USE_MOCK_DB'' \<mapsto> ''true'']" and v = "''6543''"]
  show ?thesis
    by (simp add: load_config_defaults p)
qed
text \<open>
  Claim C8 as stated fails for three options: under every environment the minimum request
  interval is 6500, the timeout 10000 and the maximum retry count 3, so no two environments
  give different values.
\<close>

theorem config_constants_counterexample:
  "(\<forall>e. minRequestIntervalMs (api (load_config e)) = 6500) \<and>
   (\<forall>e. timeoutMs (api (load_config e)) = 10000) \<and>
   (\<forall>e. maxRetries (api (load_config e)) = 3)"
  by (simp add: load_config_def)

end
